theory Spec2Isabelle
  imports Complex_Main "HOL-Library.AList"
begin

section \<open>Python floats as far as the selectors and the recognizer use them\<close>

text \<open>
  The scores the program compares are Python floats.  Rounding is not modelled: a finite
  float is a real number.  The two infinities are values the source writes itself
  (\<^verbatim>\<open>np.Inf\<close>, \<^verbatim>\<open>-np.inf\<close>), and \<^verbatim>\<open>np.log(0)\<close> is minus infinity, so that
  the arithmetic of the BIC score needs them and the not-a-number value too.
  Comparisons follow IEEE 754: every comparison with \<open>NaN\<close> is false.
\<close>

datatype pyfloat = NaN | NegInf | Fin real | PosInf

fun flt :: "pyfloat \<Rightarrow> pyfloat \<Rightarrow> bool" where
  "flt NaN _ = False"
| "flt _ NaN = False"
| "flt NegInf NegInf = False"
| "flt NegInf _ = True"
| "flt (Fin a) (Fin b) = (a < b)"
| "flt (Fin a) PosInf = True"
| "flt (Fin a) NegInf = False"
| "flt PosInf _ = False"

definition fgt :: "pyfloat \<Rightarrow> pyfloat \<Rightarrow> bool" where
  "fgt a b = flt b a"

fun fadd :: "pyfloat \<Rightarrow> pyfloat \<Rightarrow> pyfloat" where
  "fadd NaN _ = NaN"
| "fadd _ NaN = NaN"
| "fadd (Fin a) (Fin b) = Fin (a + b)"
| "fadd NegInf PosInf = NaN"
| "fadd PosInf NegInf = NaN"
| "fadd NegInf _ = NegInf"
| "fadd _ NegInf = NegInf"
| "fadd PosInf _ = PosInf"
| "fadd _ PosInf = PosInf"

definition fneg :: "pyfloat \<Rightarrow> pyfloat" where
  "fneg a = (case a of NaN \<Rightarrow> NaN | NegInf \<Rightarrow> PosInf | Fin r \<Rightarrow> Fin (- r) | PosInf \<Rightarrow> NegInf)"

definition fmul_inf :: "real \<Rightarrow> pyfloat \<Rightarrow> pyfloat" where
  \<comment> \<open>a finite factor times an infinity: the sign decides, zero gives not-a-number\<close>
  "fmul_inf r i = (if r = 0 then NaN else if 0 < r then i else fneg i)"

fun fmul :: "pyfloat \<Rightarrow> pyfloat \<Rightarrow> pyfloat" where
  "fmul NaN _ = NaN"
| "fmul _ NaN = NaN"
| "fmul (Fin a) (Fin b) = Fin (a * b)"
| "fmul (Fin a) NegInf = fmul_inf a NegInf"
| "fmul (Fin a) PosInf = fmul_inf a PosInf"
| "fmul NegInf (Fin b) = fmul_inf b NegInf"
| "fmul PosInf (Fin b) = fmul_inf b PosInf"
| "fmul NegInf NegInf = PosInf"
| "fmul NegInf PosInf = NegInf"
| "fmul PosInf NegInf = NegInf"
| "fmul PosInf PosInf = PosInf"

definition np_log :: "nat \<Rightarrow> pyfloat" where
  \<comment> \<open>\<^verbatim>\<open>np.log\<close> of a length: minus infinity at zero (a warning, not an exception)\<close>
  "np_log n = (if n = 0 then NegInf else Fin (ln (real n)))"

section \<open>The training oracle (hmmlearn's GaussianHMM)\<close>

text \<open>
  A model object carries its number of states and, once fitted, the learned parameters.
  The fitting and scoring routines are external: they are parameters of the development.
  A call that raises is the value \<open>None\<close>.  The oracle's fit sees the whole object it is
  called on, since \<^verbatim>\<open>model.fit\<close> works on an object that may have been fitted before.
  The log-likelihood a successful \<^verbatim>\<open>score\<close> returns is a real number.
\<close>

record 'p hmm =
  n_components :: int
  params :: "'p option"

record ('f, 'p) training_oracle =
  hmm_fit :: "'p hmm \<Rightarrow> 'f list \<Rightarrow> nat list \<Rightarrow> 'p option"
  hmm_score :: "'p hmm \<Rightarrow> 'f list \<Rightarrow> nat list \<Rightarrow> real option"
  hmm_n_features :: "'p hmm \<Rightarrow> nat"

definition GaussianHMM :: "int \<Rightarrow> 'p hmm" where
  \<comment> \<open>the constructor only stores its arguments\<close>
  "GaussianHMM num_states = \<lparr>n_components = num_states, params = None\<rparr>"

definition fit :: "('f, 'p) training_oracle \<Rightarrow> 'p hmm \<Rightarrow> 'f list \<Rightarrow> nat list \<Rightarrow> 'p hmm option" where
  \<comment> \<open>\<^verbatim>\<open>model.fit(X, lengths)\<close>: updates the object in place and returns it, or raises\<close>
  "fit orc model x l =
     (case hmm_fit orc model x l of
        None \<Rightarrow> None
      | Some p \<Rightarrow> Some (model\<lparr>params := Some p\<rparr>))"

definition score :: "('f, 'p) training_oracle \<Rightarrow> 'p hmm \<Rightarrow> 'f list \<Rightarrow> nat list \<Rightarrow> real option" where
  \<comment> \<open>\<^verbatim>\<open>model.score(X, lengths)\<close>: the log-likelihood, or raises\<close>
  "score orc model x l = hmm_score orc model x l"

section \<open>ModelSelector\<close>

text \<open>
  The attributes of a selector that \<^verbatim>\<open>select\<close> reads.  \<open>hwords\<close> is the dictionary
  \<^verbatim>\<open>all_word_Xlengths\<close> in its iteration order; \<open>X\<close> and \<open>lengths\<close> are its entry for
  \<open>this_word\<close>, \<open>sequences\<close> the entry of \<^verbatim>\<open>all_word_sequences\<close>.  The seed
  \<^verbatim>\<open>random_state\<close> is part of the oracle; \<^verbatim>\<open>verbose\<close> only prints and is left out.
\<close>

record 'f selector =
  hwords :: "(string \<times> 'f list \<times> nat list) list"
  sequences :: "'f list list"
  X :: "'f list"
  lengths :: "nat list"
  this_word :: string
  n_constant :: int
  min_n_components :: int
  max_n_components :: int

definition base_model :: "('f, 'p) training_oracle \<Rightarrow> 'f selector \<Rightarrow> int \<Rightarrow> 'p hmm option" where
  \<comment> \<open>try: fit a new model on the whole category; except: return None\<close>
  "base_model orc self num_states =
     (case fit orc (GaussianHMM num_states) (X self) (lengths self) of
        Some hmm_model \<Rightarrow> Some hmm_model
      | None \<Rightarrow> None)"

definition SelectorConstant_select :: "('f, 'p) training_oracle \<Rightarrow> 'f selector \<Rightarrow> 'p hmm option" where
  "SelectorConstant_select orc self = base_model orc self (n_constant self)"

text \<open>
  The three searching selectors share one loop: for each \<open>n\<close> of the range, in ascending
  order, the body of the \<^verbatim>\<open>try\<close> either raises (\<open>None\<close>: \<^verbatim>\<open>continue\<close>) or gives a
  score and a model, which replace the best ones when the score is better.
\<close>

fun select_loop ::
  "(pyfloat \<Rightarrow> pyfloat \<Rightarrow> bool) \<Rightarrow> ('n \<Rightarrow> (pyfloat \<times> 'm) option) \<Rightarrow>
     'n list \<Rightarrow> pyfloat \<times> 'm \<times> 'n option \<Rightarrow> pyfloat \<times> 'm \<times> 'n option" where
  "select_loop better body [] best = best"
| "select_loop better body (n # ns) (best_score, best_model, best_n) =
     (case body n of
        None \<Rightarrow> select_loop better body ns (best_score, best_model, best_n)
      | Some (sc, model) \<Rightarrow>
          if better sc best_score
          then select_loop better body ns (sc, model, Some n)
          else select_loop better body ns (best_score, best_model, best_n))"

definition n_range :: "'f selector \<Rightarrow> int list" where
  \<comment> \<open>\<^verbatim>\<open>range(self.min_n_components, self.max_n_components + 1)\<close>\<close>
  "n_range self = [min_n_components self .. max_n_components self]"

subsection \<open>SelectorBIC\<close>

definition bic_body :: "('f, 'p) training_oracle \<Rightarrow> 'f selector \<Rightarrow> int \<Rightarrow> (pyfloat \<times> 'p hmm option) option" where
  "bic_body orc self n =
     (case base_model orc self n of
        None \<Rightarrow> None \<comment> \<open>\<^verbatim>\<open>None.fit\<close>: AttributeError\<close>
      | Some model0 \<Rightarrow>
          (case fit orc model0 (X self) (lengths self) of
             None \<Rightarrow> None
           | Some model \<Rightarrow>
               let p = n ^ 2 + 2 * n * int (hmm_n_features orc model) - 1 in
               (case score orc model (X self) (lengths self) of
                  None \<Rightarrow> None
                | Some logL \<Rightarrow>
                    Some (fadd (Fin (- 2 * logL))
                               (fmul (Fin (real_of_int p)) (np_log (length (X self)))),
                          Some model))))"

definition SelectorBIC_select :: "('f, 'p) training_oracle \<Rightarrow> 'f selector \<Rightarrow> 'p hmm option" where
  "SelectorBIC_select orc self =
     (case select_loop flt (bic_body orc self) (n_range self) (PosInf, None, None) of
        (best_score, best_model, best_n) \<Rightarrow> best_model)"

subsection \<open>SelectorDIC\<close>

fun anti_loop ::
  "('f, 'p) training_oracle \<Rightarrow> 'p hmm \<Rightarrow> string \<Rightarrow> (string \<times> 'f list \<times> nat list) list \<Rightarrow>
     nat \<times> real \<Rightarrow> (nat \<times> real) option" where
  "anti_loop orc model this [] (count, sum_anti_ll) = Some (count, sum_anti_ll)"
| "anti_loop orc model this ((word, anti_X, anti_length) # rest) (count, sum_anti_ll) =
     (if word = this then anti_loop orc model this rest (count, sum_anti_ll)
      else
        (case score orc model anti_X anti_length of
           None \<Rightarrow> None
         | Some ll \<Rightarrow> anti_loop orc model this rest (count + 1, sum_anti_ll + ll)))"

definition dic_body :: "('f, 'p) training_oracle \<Rightarrow> 'f selector \<Rightarrow> int \<Rightarrow> (pyfloat \<times> 'p hmm option) option" where
  "dic_body orc self n =
     (case base_model orc self n of
        None \<Rightarrow> None
      | Some model0 \<Rightarrow>
          (case fit orc model0 (X self) (lengths self) of
             None \<Rightarrow> None
           | Some model \<Rightarrow>
               (case score orc model (X self) (lengths self) of
                  None \<Rightarrow> None
                | Some logL \<Rightarrow>
                    (case anti_loop orc model (this_word self) (hwords self) (0, 0) of
                       None \<Rightarrow> None
                     | Some (count, sum_anti_ll) \<Rightarrow>
                         if count = 0 then None \<comment> \<open>ZeroDivisionError\<close>
                         else Some (Fin (logL - 1 / real count * sum_anti_ll), Some model)))))"

definition SelectorDIC_select :: "('f, 'p) training_oracle \<Rightarrow> 'f selector \<Rightarrow> 'p hmm option" where
  "SelectorDIC_select orc self =
     (case select_loop fgt (dic_body orc self) (n_range self) (NegInf, None, None) of
        (best_score, best_model, best_n) \<Rightarrow> best_model)"

subsection \<open>SelectorCV\<close>

text \<open>
  scikit-learn's \<^verbatim>\<open>KFold(n_splits=k).split\<close> on \<open>n\<close> samples, without shuffling: it
  raises unless \<open>2 \<le> k \<le> n\<close>; the first \<open>n mod k\<close> folds have \<open>n div k + 1\<close> consecutive
  test indices, the others \<open>n div k\<close>; the training indices are the remaining ones.
\<close>

fun kfold_folds :: "nat \<Rightarrow> nat list \<Rightarrow> nat \<Rightarrow> (nat list \<times> nat list) list" where
  "kfold_folds n [] current = []"
| "kfold_folds n (fold_size # sizes) current =
     ([0..<current] @ [current + fold_size..<n], [current..<current + fold_size])
       # kfold_folds n sizes (current + fold_size)"

definition KFold_split :: "nat \<Rightarrow> nat \<Rightarrow> (nat list \<times> nat list) list option" where
  "KFold_split k n =
     (if k \<le> 1 then None
      else if k > n then None
      else Some (kfold_folds n
                   (map (\<lambda>i. n div k + (if i < n mod k then 1 else 0)) [0..<k]) 0))"

definition combine_sequences :: "nat list \<Rightarrow> 'f list list \<Rightarrow> ('f list \<times> nat list) option" where
  \<comment> \<open>Modelled from the spec: \<^verbatim>\<open>asl_utils.combine_sequences\<close> is not among the sources.
      It concatenates the frames of the chosen sequences in index order and records
      their lengths; an index out of range raises.\<close>
  "combine_sequences split_index_list seqs =
     (if \<forall>idx \<in> set split_index_list. idx < length seqs
      then Some (concat (map (\<lambda>idx. seqs ! idx) split_index_list),
                 map (\<lambda>idx. length (seqs ! idx)) split_index_list)
      else None)"

fun cv_folds ::
  "('f, 'p) training_oracle \<Rightarrow> 'f list list \<Rightarrow> (nat list \<times> nat list) list \<Rightarrow> 'p hmm option \<Rightarrow> real \<Rightarrow>
     (real \<times> 'p hmm option) option" where
  "cv_folds orc seqs [] model sc = Some (sc, model)"
| "cv_folds orc seqs ((train_idx, test_idx) # rest) model sc =
     (case combine_sequences train_idx seqs of
        None \<Rightarrow> None
      | Some (X_train, l_train) \<Rightarrow>
          (case combine_sequences test_idx seqs of
             None \<Rightarrow> None
           | Some (X_test, l_test) \<Rightarrow>
               (case model of
                  None \<Rightarrow> None \<comment> \<open>\<^verbatim>\<open>None.fit\<close>: AttributeError\<close>
                | Some m \<Rightarrow>
                    (case fit orc m X_train l_train of
                       None \<Rightarrow> None
                     | Some m' \<Rightarrow>
                         (case score orc m' X_test l_test of
                            None \<Rightarrow> None
                          | Some ll \<Rightarrow> cv_folds orc seqs rest (Some m') (sc + ll))))))"

definition cv_body ::
  "('f, 'p) training_oracle \<Rightarrow> 'f selector \<Rightarrow> nat \<Rightarrow> int \<Rightarrow> (pyfloat \<times> 'p hmm option) option" where
  "cv_body orc self k n =
     (let model = base_model orc self n in
      case KFold_split k (length (sequences self)) of
        None \<Rightarrow> None
      | Some split \<Rightarrow>
          (case cv_folds orc (sequences self) split model 0 of
             None \<Rightarrow> None
           | Some (sc, model') \<Rightarrow>
               if k = 0 then None \<comment> \<open>ZeroDivisionError\<close>
               else Some (Fin (sc / real k), model')))"

datatype 'a outcome = Raised | Returned 'a

definition cv_search ::
  "('f, 'p) training_oracle \<Rightarrow> 'f selector \<Rightarrow> pyfloat \<times> 'p hmm option \<times> int option" where
  \<comment> \<open>the search loop of \<^verbatim>\<open>SelectorCV.select\<close>: best score, best model and best n after it\<close>
  "cv_search orc self =
     (let k = min 3 (length (sequences self)) in
      select_loop fgt (cv_body orc self k) (n_range self) (NegInf, None, None))"

definition SelectorCV_select :: "('f, 'p) training_oracle \<Rightarrow> 'f selector \<Rightarrow> 'p hmm option outcome" where
  "SelectorCV_select orc self =
     (case cv_search orc self of
        (best_score, best_model, best_n) \<Rightarrow>
          (case best_model of
             Some m \<Rightarrow>
               (case fit orc m (X self) (lengths self) of
                  None \<Rightarrow> Raised \<comment> \<open>the last fit is outside every \<^verbatim>\<open>try\<close>\<close>
                | Some m' \<Rightarrow> Returned (Some m'))
           | None \<Rightarrow> Returned None))"

section \<open>The recognizer\<close>

definition word_ll ::
  "('f, 'p) training_oracle \<Rightarrow> (string \<times> 'p hmm option) list \<Rightarrow> 'f list \<Rightarrow> nat list \<Rightarrow> string \<Rightarrow> pyfloat" where
  \<comment> \<open>try: \<^verbatim>\<open>ll = models[candidate_word].score(X, l)\<close>; except Exception: minus infinity\<close>
  "word_ll orc models x l candidate_word =
     (case map_of models candidate_word of
        None \<Rightarrow> NegInf \<comment> \<open>KeyError\<close>
      | Some None \<Rightarrow> NegInf \<comment> \<open>\<^verbatim>\<open>None.score\<close>: AttributeError\<close>
      | Some (Some model) \<Rightarrow>
          (case score orc model x l of None \<Rightarrow> NegInf | Some ll \<Rightarrow> Fin ll))"

fun word_loop ::
  "('f, 'p) training_oracle \<Rightarrow> (string \<times> 'p hmm option) list \<Rightarrow> 'f list \<Rightarrow> nat list \<Rightarrow> string list \<Rightarrow>
     (string \<times> pyfloat) list \<times> pyfloat \<times> string option \<Rightarrow>
     (string \<times> pyfloat) list \<times> pyfloat \<times> string option" where
  "word_loop orc models x l [] st = st"
| "word_loop orc models x l (candidate_word # ws) (probs_i, best_score, best_guess) =
     (let ll = word_ll orc models x l candidate_word;
          probs_i' = AList.update candidate_word ll probs_i
      in if fgt ll best_score
         then word_loop orc models x l ws (probs_i', ll, Some candidate_word)
         else word_loop orc models x l ws (probs_i', best_score, best_guess))"

definition recognize_item ::
  "('f, 'p) training_oracle \<Rightarrow> (string \<times> 'p hmm option) list \<Rightarrow> 'f list \<times> nat list \<Rightarrow>
     (string \<times> pyfloat) list \<times> string option" where
  "recognize_item orc models item =
     (case item of (x, l) \<Rightarrow>
        (case word_loop orc models x l (map fst models) ([], NegInf, None) of
           (probs_i, best_score, best_guess) \<Rightarrow> (probs_i, best_guess)))"

fun recognize_loop ::
  "('f, 'p) training_oracle \<Rightarrow> (string \<times> 'p hmm option) list \<Rightarrow> ('f list \<times> nat list) list \<Rightarrow>
     (string \<times> pyfloat) list list \<times> string option list \<Rightarrow>
     (string \<times> pyfloat) list list \<times> string option list" where
  "recognize_loop orc models [] (probabilities, guesses) = (probabilities, guesses)"
| "recognize_loop orc models (item # items) (probabilities, guesses) =
     (case recognize_item orc models item of
        (probs_i, best_guess) \<Rightarrow>
          recognize_loop orc models items (probabilities @ [probs_i], guesses @ [best_guess]))"

definition recognize ::
  "('f, 'p) training_oracle \<Rightarrow> (string \<times> 'p hmm option) list \<Rightarrow> ('f list \<times> nat list) list \<Rightarrow>
     (string \<times> pyfloat) list list \<times> string option list" where
  "recognize orc models test_set = recognize_loop orc models test_set ([], [])"

section \<open>The criteria in the words of the specification\<close>

text \<open>
  The candidate of a state count \<open>n\<close> is the model \<^verbatim>\<open>base_model(n)\<close> returns, fitted once
  more on the category's data, as both \<^verbatim>\<open>SelectorBIC\<close> and \<^verbatim>\<open>SelectorDIC\<close> do.
\<close>

definition trained_candidate ::
  "('f, 'p) training_oracle \<Rightarrow> 'f selector \<Rightarrow> int \<Rightarrow> 'p hmm option" where
  "trained_candidate orc self n =
     (case base_model orc self n of
        None \<Rightarrow> None
      | Some model \<Rightarrow> fit orc model (X self) (lengths self))"

definition BIC_value :: "real \<Rightarrow> int \<Rightarrow> nat \<Rightarrow> nat \<Rightarrow> real" where
  \<comment> \<open>\<open>-2 logL + p ln N\<close> with \<open>p = n\<^sup>2 + 2 n d - 1\<close>\<close>
  "BIC_value logL n d N = - 2 * logL + real_of_int (n ^ 2 + 2 * n * int d - 1) * ln (real N)"

definition candidate_BIC ::
  "('f, 'p) training_oracle \<Rightarrow> 'f selector \<Rightarrow> int \<Rightarrow> real option" where
  "candidate_BIC orc self n =
     (case trained_candidate orc self n of
        None \<Rightarrow> None
      | Some model \<Rightarrow>
          (case score orc model (X self) (lengths self) of
             None \<Rightarrow> None
           | Some logL \<Rightarrow>
               Some (BIC_value logL n (hmm_n_features orc model) (length (X self)))))"

definition other_words :: "'f selector \<Rightarrow> (string \<times> 'f list \<times> nat list) list" where
  \<comment> \<open>every other category with its full data\<close>
  "other_words self = filter (\<lambda>entry. fst entry \<noteq> this_word self) (hwords self)"

definition anti_lls ::
  "('f, 'p) training_oracle \<Rightarrow> 'p hmm \<Rightarrow> 'f selector \<Rightarrow> real option list" where
  \<comment> \<open>the model's log-likelihood on each other category, \<open>None\<close> where scoring fails\<close>
  "anti_lls orc model self =
     map (\<lambda>entry. score orc model (fst (snd entry)) (snd (snd entry))) (other_words self)"

definition candidate_DIC ::
  "('f, 'p) training_oracle \<Rightarrow> 'f selector \<Rightarrow> int \<Rightarrow> real option" where
  \<comment> \<open>\<open>logL_self - mean_anti_logL\<close>, the mean over every other category\<close>
  "candidate_DIC orc self n =
     (case trained_candidate orc self n of
        None \<Rightarrow> None
      | Some model \<Rightarrow>
          (case score orc model (X self) (lengths self) of
             None \<Rightarrow> None
           | Some logL \<Rightarrow>
               (case those (anti_lls orc model self) of
                  None \<Rightarrow> None
                | Some anti \<Rightarrow>
                    if anti = [] then None
                    else Some (logL - sum_list anti / real (length anti)))))"

fun heldout_lls ::
  "('f, 'p) training_oracle \<Rightarrow> 'f list list \<Rightarrow> (nat list \<times> nat list) list \<Rightarrow> 'p hmm \<Rightarrow>
     (real list \<times> 'p hmm) option" where
  \<comment> \<open>the held-out log-likelihood of every fold, in order, and the model after the last
      fold; \<open>None\<close> as soon as a fit or a score fails\<close>
  "heldout_lls orc seqs [] m = Some ([], m)"
| "heldout_lls orc seqs ((train_idx, test_idx) # rest) m =
     (case combine_sequences train_idx seqs of
        None \<Rightarrow> None
      | Some (X_train, l_train) \<Rightarrow>
          (case combine_sequences test_idx seqs of
             None \<Rightarrow> None
           | Some (X_test, l_test) \<Rightarrow>
               (case fit orc m X_train l_train of
                  None \<Rightarrow> None
                | Some m' \<Rightarrow>
                    (case score orc m' X_test l_test of
                       None \<Rightarrow> None
                     | Some ll \<Rightarrow>
                         (case heldout_lls orc seqs rest m' of
                            None \<Rightarrow> None
                          | Some (lls, m'') \<Rightarrow> Some (ll # lls, m''))))))"

definition candidate_CV ::
  "('f, 'p) training_oracle \<Rightarrow> 'f selector \<Rightarrow> int \<Rightarrow> (real \<times> 'p hmm) option" where
  \<comment> \<open>the arithmetic mean of the held-out log-likelihoods of all folds\<close>
  "candidate_CV orc self n =
     (case base_model orc self n of
        None \<Rightarrow> None
      | Some model \<Rightarrow>
          (case KFold_split (min 3 (length (sequences self))) (length (sequences self)) of
             None \<Rightarrow> None
           | Some split \<Rightarrow>
               (case heldout_lls orc (sequences self) split model of
                  None \<Rightarrow> None
                | Some (lls, model') \<Rightarrow> Some (sum_list lls / real (length lls), model'))))"

definition fit_ignores_state :: "('f, 'p) training_oracle \<Rightarrow> bool" where
  \<comment> \<open>fitting starts from scratch: the result depends on the state count and the data only\<close>
  "fit_ignores_state orc =
     (\<forall>m x l. hmm_fit orc m x l = hmm_fit orc (GaussianHMM (n_components m)) x l)"

definition item_ll ::
  "('f, 'p) training_oracle \<Rightarrow> 'p hmm option \<Rightarrow> 'f list \<times> nat list \<Rightarrow> pyfloat" where
  \<comment> \<open>the score of one category's model on a test item, minus infinity on failure\<close>
  "item_ll orc model item =
     (case model of
        None \<Rightarrow> NegInf
      | Some m \<Rightarrow> (case score orc m (fst item) (snd item) of None \<Rightarrow> NegInf | Some ll \<Rightarrow> Fin ll))"

section \<open>Example data\<close>

definition cat_dog :: "nat selector" where
  "cat_dog =
     \<lparr>hwords = [(''CAT'', [1, 2, 3], [2, 1]), (''DOG'', [4, 5], [1, 1]), (''EEL'', [6], [1])],
      sequences = [[1, 2], [3]], X = [1, 2, 3], lengths = [2, 1], this_word = ''CAT'',
      n_constant = 3, min_n_components = 2, max_n_components = 4\<rparr>"

definition toy_oracle :: "(nat, int) training_oracle" where
  \<comment> \<open>fitting fails at four states; the log-likelihood falls with the state count and
      the number of frames; one feature\<close>
  "toy_oracle =
     \<lparr>hmm_fit = (\<lambda>m x l. if n_components m = 4 then None else Some (n_components m)),
      hmm_score = (\<lambda>m x l. Some (- (real_of_int (n_components m) * real (length x)))),
      hmm_n_features = (\<lambda>m. 1)\<rparr>"

definition rising_oracle :: "(nat, int) training_oracle" where
  \<comment> \<open>every fit succeeds; the log-likelihood rises with the state count (up to four
      states) and falls with the number of frames; one feature\<close>
  "rising_oracle =
     \<lparr>hmm_fit = (\<lambda>m x l. Some (n_components m)),
      hmm_score = (\<lambda>m x l. Some (- (10 * real_of_int (4 - n_components m) * real (length x)))),
      hmm_n_features = (\<lambda>m. 1)\<rparr>"

definition picky_oracle :: "(nat, int) training_oracle" where
  \<comment> \<open>every fit succeeds; scoring raises on the data of DOG and on nothing else\<close>
  "picky_oracle =
     \<lparr>hmm_fit = (\<lambda>m x l. Some (n_components m)),
      hmm_score = (\<lambda>m x l. if x = [4, 5] then None
                             else Some (- (real_of_int (n_components m) * real (length x)))),
      hmm_n_features = (\<lambda>m. 1)\<rparr>"

definition lone_cat :: "nat selector" where
  \<comment> \<open>the category CAT with a single sequence\<close>
  "lone_cat =
     \<lparr>hwords = [(''CAT'', [1, 2], [2]), (''DOG'', [4, 5], [1, 1])],
      sequences = [[1, 2]], X = [1, 2], lengths = [2], this_word = ''CAT'',
      n_constant = 3, min_n_components = 2, max_n_components = 4\<rparr>"

definition word_models :: "(string \<times> int hmm option) list" where
  \<comment> \<open>a models dictionary: no model for EEL, models of two states for CAT and DOG\<close>
  "word_models =
     [(''EEL'', None),
      (''CAT'', Some \<lparr>n_components = 2, params = Some 2\<rparr>),
      (''DOG'', Some \<lparr>n_components = 2, params = Some 2\<rparr>)]"

definition test_items :: "(nat list \<times> nat list) list" where
  "test_items = [([1, 2, 3], [2, 1]), ([4, 5], [1, 1])]"

section \<open>The search loop\<close>

text \<open>
  Started from a best score that every finite score beats, the loop ends at the first
  candidate of the range whose score no other candidate beats; candidates whose body
  raises are skipped.
\<close>

lemma select_loop_first_best:
  assumes fin: "\<forall>n\<in>set ns. \<forall>sc m. body n = Some (sc, m) \<longrightarrow> (\<exists>v. sc = Fin v)"
      and bet: "\<And>a c. better (Fin a) (Fin c) = ((key a :: real) < key c)"
      and bnd: "\<And>a. better (Fin a) b = (case bd of None \<Rightarrow> True | Some w \<Rightarrow> key a < key w)"
  shows "(select_loop better body ns (b, bm, bn) = (b, bm, bn) \<and>
           (\<forall>n\<in>set ns. \<forall>v m. body n = Some (Fin v, m) \<longrightarrow>
               (case bd of None \<Rightarrow> False | Some w \<Rightarrow> key w \<le> key v)))
       \<or> (\<exists>pre n post v m. ns = pre @ n # post \<and> body n = Some (Fin v, m) \<and>
             select_loop better body ns (b, bm, bn) = (Fin v, m, Some n) \<and>
             (case bd of None \<Rightarrow> True | Some w \<Rightarrow> key v < key w) \<and>
             (\<forall>n'\<in>set pre. \<forall>v' m'. body n' = Some (Fin v', m') \<longrightarrow> key v < key v') \<and>
             (\<forall>n'\<in>set post. \<forall>v' m'. body n' = Some (Fin v', m') \<longrightarrow> key v \<le> key v'))"
  using fin bnd
proof (induction ns arbitrary: b bm bn bd)
  case Nil
  then show ?case by simp
next
  case (Cons n ns)
  have fin': "\<forall>n\<in>set ns. \<forall>sc m. body n = Some (sc, m) \<longrightarrow> (\<exists>v. sc = Fin v)"
    using Cons.prems(1) by simp
  show ?case
  proof (cases "body n")
    case None
    from Cons.IH [OF fin' Cons.prems(2), of bm bn]
    show ?thesis
    proof (elim disjE exE conjE)
      assume "select_loop better body ns (b, bm, bn) = (b, bm, bn)"
        and "\<forall>n\<in>set ns. \<forall>v m. body n = Some (Fin v, m) \<longrightarrow>
               (case bd of None \<Rightarrow> False | Some w \<Rightarrow> key w \<le> key v)"
      then show ?thesis using None by simp
    next
      fix pre n' post v m
      assume a: "ns = pre @ n' # post" "body n' = Some (Fin v, m)"
        "select_loop better body ns (b, bm, bn) = (Fin v, m, Some n')"
        "case bd of None \<Rightarrow> True | Some w \<Rightarrow> key v < key w"
        "\<forall>n'\<in>set pre. \<forall>v' m'. body n' = Some (Fin v', m') \<longrightarrow> key v < key v'"
        "\<forall>n'\<in>set post. \<forall>v' m'. body n' = Some (Fin v', m') \<longrightarrow> key v \<le> key v'"
      have "n # ns = (n # pre) @ n' # post" using a(1) by simp
      moreover have "\<forall>k\<in>set (n # pre). \<forall>v' m'. body k = Some (Fin v', m') \<longrightarrow> key v < key v'"
        using a(5) None by simp
      moreover have "select_loop better body (n # ns) (b, bm, bn) = (Fin v, m, Some n')"
        using a(3) None by simp
      ultimately show ?thesis using a(2,4,6) by blast
    qed
  next
    case (Some r)
    obtain sc m0 where r: "r = (sc, m0)" by (cases r)
    obtain v0 where sc: "sc = Fin v0" using Cons.prems(1) Some r by auto
    have bn0: "body n = Some (Fin v0, m0)" using Some r sc by simp
    show ?thesis
    proof (cases "better (Fin v0) b")
      case True
      have step: "select_loop better body (n # ns) (b, bm, bn)
                  = select_loop better body ns (Fin v0, m0, Some n)"
        using bn0 True by simp
      have bnd': "\<And>a. better (Fin a) (Fin v0) = (case Some v0 of None \<Rightarrow> True | Some w \<Rightarrow> key a < key w)"
        by (simp add: bet)
      have lt0: "case bd of None \<Rightarrow> True | Some w \<Rightarrow> key v0 < key w"
        using True Cons.prems(2) by simp
      from Cons.IH [OF fin' bnd', of m0 "Some n"]
      show ?thesis
      proof (elim disjE exE conjE)
        assume u: "select_loop better body ns (Fin v0, m0, Some n) = (Fin v0, m0, Some n)"
          and w: "\<forall>n\<in>set ns. \<forall>v m. body n = Some (Fin v, m) \<longrightarrow>
               (case Some v0 of None \<Rightarrow> False | Some w \<Rightarrow> key w \<le> key v)"
        have "n # ns = [] @ n # ns" by simp
        moreover have "select_loop better body (n # ns) (b, bm, bn) = (Fin v0, m0, Some n)"
          using step u by simp
        moreover have "\<forall>k\<in>set ns. \<forall>v' m'. body k = Some (Fin v', m') \<longrightarrow> key v0 \<le> key v'"
          using w by simp
        moreover have "\<forall>k\<in>set []. \<forall>v' m'. body k = Some (Fin v', m') \<longrightarrow> key v0 < key v'"
          by simp
        ultimately show ?thesis using bn0 lt0 by blast
      next
        fix pre n' post v m
        assume a: "ns = pre @ n' # post" "body n' = Some (Fin v, m)"
          "select_loop better body ns (Fin v0, m0, Some n) = (Fin v, m, Some n')"
          "case Some v0 of None \<Rightarrow> True | Some w \<Rightarrow> key v < key w"
          "\<forall>n'\<in>set pre. \<forall>v' m'. body n' = Some (Fin v', m') \<longrightarrow> key v < key v'"
          "\<forall>n'\<in>set post. \<forall>v' m'. body n' = Some (Fin v', m') \<longrightarrow> key v \<le> key v'"
        have vv0: "key v < key v0" using a(4) by simp
        have "n # ns = (n # pre) @ n' # post" using a(1) by simp
        moreover have "\<forall>k\<in>set (n # pre). \<forall>v' m'. body k = Some (Fin v', m') \<longrightarrow> key v < key v'"
          using a(5) bn0 vv0 by auto
        moreover have "select_loop better body (n # ns) (b, bm, bn) = (Fin v, m, Some n')"
          using a(3) step by simp
        moreover have "case bd of None \<Rightarrow> True | Some w \<Rightarrow> key v < key w"
          using lt0 vv0 by (cases bd) auto
        ultimately show ?thesis using a(2,6) by blast
      qed
    next
      case False
      have step: "select_loop better body (n # ns) (b, bm, bn)
                  = select_loop better body ns (b, bm, bn)"
        using bn0 False by simp
      obtain w0 where bd: "bd = Some w0" and ge0: "key w0 \<le> key v0"
        using False Cons.prems(2) [of v0] by (cases bd) auto
      from Cons.IH [OF fin' Cons.prems(2), of bm bn]
      show ?thesis
      proof (elim disjE exE conjE)
        assume u: "select_loop better body ns (b, bm, bn) = (b, bm, bn)"
          and w: "\<forall>n\<in>set ns. \<forall>v m. body n = Some (Fin v, m) \<longrightarrow>
               (case bd of None \<Rightarrow> False | Some w \<Rightarrow> key w \<le> key v)"
        have "\<forall>k\<in>set (n # ns). \<forall>v m. body k = Some (Fin v, m) \<longrightarrow>
               (case bd of None \<Rightarrow> False | Some w \<Rightarrow> key w \<le> key v)"
          using w bn0 bd ge0 by auto
        then show ?thesis using step u by simp
      next
        fix pre n' post v m
        assume a: "ns = pre @ n' # post" "body n' = Some (Fin v, m)"
          "select_loop better body ns (b, bm, bn) = (Fin v, m, Some n')"
          "case bd of None \<Rightarrow> True | Some w \<Rightarrow> key v < key w"
          "\<forall>n'\<in>set pre. \<forall>v' m'. body n' = Some (Fin v', m') \<longrightarrow> key v < key v'"
          "\<forall>n'\<in>set post. \<forall>v' m'. body n' = Some (Fin v', m') \<longrightarrow> key v \<le> key v'"
        have vv0: "key v < key v0" using a(4) bd ge0 by simp
        have "n # ns = (n # pre) @ n' # post" using a(1) by simp
        moreover have "\<forall>k\<in>set (n # pre). \<forall>v' m'. body k = Some (Fin v', m') \<longrightarrow> key v < key v'"
          using a(5) bn0 vv0 by auto
        moreover have "select_loop better body (n # ns) (b, bm, bn) = (Fin v, m, Some n')"
          using a(3) step by simp
        ultimately show ?thesis using a(2,4,6) by blast
      qed
    qed
  qed
qed

lemma upto_split_less:
  assumes "[a..b] = pre @ n # post"
  shows "(\<forall>k\<in>set pre. k < n) \<and> (\<forall>k\<in>set post. n < k)"
proof -
  have "sorted_wrt (<) [a..b]"
    by (simp add: strict_sorted_iff)
  then have "sorted_wrt (<) (pre @ n # post)"
    using assms by simp
  then show ?thesis by (auto simp: sorted_wrt_append)
qed

lemma select_loop_all_fail:
  "\<forall>n\<in>set ns. body n = None \<Longrightarrow> select_loop better body ns st = st"
  by (induction ns arbitrary: st) (auto split: prod.splits)

lemma select_loop_range:
  assumes fin: "\<forall>n\<in>set [a..b]. \<forall>sc m. body n = Some (sc, m) \<longrightarrow> (\<exists>v. sc = Fin v)"
      and bet: "\<And>x y. better (Fin x) (Fin y) = ((key x :: real) < key y)"
      and ini: "\<And>x. better (Fin x) b0"
  shows "(select_loop better body [a..b] (b0, bm0, None) = (b0, bm0, None) \<and>
            (\<forall>n\<in>set [a..b]. body n = None))
       \<or> (\<exists>n v m. n \<in> set [a..b] \<and> body n = Some (Fin v, m) \<and>
             select_loop better body [a..b] (b0, bm0, None) = (Fin v, m, Some n) \<and>
             (\<forall>n'\<in>set [a..b]. \<forall>v' m'. body n' = Some (Fin v', m') \<longrightarrow>
                 key v \<le> key v' \<and> (n' < n \<longrightarrow> key v < key v')))"
proof -
  have bnd: "\<And>x. better (Fin x) b0 = (case None of None \<Rightarrow> True | Some w \<Rightarrow> key x < key w)"
    using ini by simp
  from select_loop_first_best [OF fin bet bnd, of bm0 None]
  show ?thesis
  proof (elim disjE exE conjE)
    assume u: "select_loop better body [a..b] (b0, bm0, None) = (b0, bm0, None)"
      and w: "\<forall>n\<in>set [a..b]. \<forall>v m. body n = Some (Fin v, m) \<longrightarrow>
                (case None of None \<Rightarrow> False | Some w \<Rightarrow> key w \<le> key v)"
    have "\<forall>n\<in>set [a..b]. body n = None"
    proof
      fix n assume n: "n \<in> set [a..b]"
      show "body n = None"
      proof (cases "body n")
        case (Some r)
        obtain sc m where r: "r = (sc, m)" by (cases r)
        have "\<exists>v. sc = Fin v" using fin n Some r by blast
        then obtain v where "body n = Some (Fin v, m)" using Some r by blast
        with w n show ?thesis by simp
      qed simp
    qed
    with u show ?thesis by simp
  next
    fix pre n post v m
    assume a: "[a..b] = pre @ n # post" "body n = Some (Fin v, m)"
      "select_loop better body [a..b] (b0, bm0, None) = (Fin v, m, Some n)"
      "\<forall>n'\<in>set pre. \<forall>v' m'. body n' = Some (Fin v', m') \<longrightarrow> key v < key v'"
      "\<forall>n'\<in>set post. \<forall>v' m'. body n' = Some (Fin v', m') \<longrightarrow> key v \<le> key v'"
    have ord: "(\<forall>k\<in>set pre. k < n) \<and> (\<forall>k\<in>set post. n < k)"
      using upto_split_less [OF a(1)] .
    have mem: "n \<in> set [a..b]" using a(1) by simp
    have "\<forall>n'\<in>set [a..b]. \<forall>v' m'. body n' = Some (Fin v', m') \<longrightarrow>
                 key v \<le> key v' \<and> (n' < n \<longrightarrow> key v < key v')"
    proof (intro ballI allI impI)
      fix n' v' m'
      assume n': "n' \<in> set [a..b]" and b': "body n' = Some (Fin v', m')"
      from n' a(1) have "n' \<in> set pre \<or> n' = n \<or> n' \<in> set post" by auto
      then show "key v \<le> key v' \<and> (n' < n \<longrightarrow> key v < key v')"
      proof (elim disjE)
        assume "n' \<in> set pre"
        with a(4) b' show ?thesis by fastforce
      next
        assume "n' = n"
        with a(2) b' show ?thesis by simp
      next
        assume p: "n' \<in> set post"
        with ord have "n < n'" by simp
        moreover from p a(5) b' have "key v \<le> key v'" by blast
        ultimately show ?thesis by simp
      qed
    qed
    with mem a(2,3) show ?thesis by blast
  qed
qed

section \<open>Properties of SelectorBIC\<close>

lemma flt_Fin_PosInf: "flt (Fin x) PosInf"
  by simp

lemma fgt_Fin_NegInf: "fgt (Fin x) NegInf"
  by (simp add: fgt_def)

lemma fgt_Fin_Fin: "fgt (Fin x) (Fin y) = (- x < - y)"
  by (simp add: fgt_def)

lemma bic_body_candidate:
  assumes "X self \<noteq> []"
  shows "bic_body orc self n =
           (case candidate_BIC orc self n of
              None \<Rightarrow> None
            | Some v \<Rightarrow> Some (Fin v, trained_candidate orc self n))"
  using assms
  by (simp add: bic_body_def candidate_BIC_def trained_candidate_def BIC_value_def np_log_def
           Let_def split: option.splits)

lemma base_model_None_candidate_BIC:
  "base_model orc self n = None \<Longrightarrow> candidate_BIC orc self n = None"
  by (simp add: candidate_BIC_def trained_candidate_def)

lemma SelectorBIC_select_lowest_n_range:
  assumes "X self \<noteq> []"
  shows "(case SelectorBIC_select orc self of
            None \<Rightarrow> \<forall>n\<in>set (n_range self). candidate_BIC orc self n = None
          | Some model \<Rightarrow>
              \<exists>n v. n \<in> set (n_range self) \<and> trained_candidate orc self n = Some model \<and>
                candidate_BIC orc self n = Some v \<and>
                (\<forall>n'\<in>set (n_range self). \<forall>v'. candidate_BIC orc self n' = Some v' \<longrightarrow>
                    v \<le> v' \<and> (n' < n \<longrightarrow> v < v')))
       \<and> ((\<forall>n\<in>set (n_range self). base_model orc self n = None) \<longrightarrow>
             SelectorBIC_select orc self = None)"
proof -
  let ?body = "bic_body orc self"
  let ?a = "min_n_components self" and ?b = "max_n_components self"
  have body: "\<And>n. ?body n = (case candidate_BIC orc self n of
              None \<Rightarrow> None | Some v \<Rightarrow> Some (Fin v, trained_candidate orc self n))"
    using bic_body_candidate [OF assms] .
  have fin: "\<forall>n\<in>set [?a..?b]. \<forall>sc m. ?body n = Some (sc, m) \<longrightarrow> (\<exists>v. sc = Fin v)"
    by (auto simp: body split: option.splits)
  have bet: "\<And>x y. flt (Fin x) (Fin y) = ((x :: real) < y)" by simp
  have main: "case SelectorBIC_select orc self of
            None \<Rightarrow> \<forall>n\<in>set (n_range self). candidate_BIC orc self n = None
          | Some model \<Rightarrow>
              \<exists>n v. n \<in> set (n_range self) \<and> trained_candidate orc self n = Some model \<and>
                candidate_BIC orc self n = Some v \<and>
                (\<forall>n'\<in>set (n_range self). \<forall>v'. candidate_BIC orc self n' = Some v' \<longrightarrow>
                    v \<le> v' \<and> (n' < n \<longrightarrow> v < v'))"
    using select_loop_range [of ?a ?b ?body flt "\<lambda>x. x" PosInf None, OF fin bet flt_Fin_PosInf]
  proof (elim disjE exE conjE)
    assume u: "select_loop flt ?body [?a..?b] (PosInf, None, None) = (PosInf, None, None)"
      and w: "\<forall>n\<in>set [?a..?b]. ?body n = None"
    have "\<forall>n\<in>set (n_range self). candidate_BIC orc self n = None"
    proof
      fix n assume "n \<in> set (n_range self)"
      with w have "?body n = None" by (simp add: n_range_def)
      then show "candidate_BIC orc self n = None"
        by (simp add: body split: option.splits)
    qed
    moreover have "SelectorBIC_select orc self = None"
      using u by (simp add: SelectorBIC_select_def n_range_def)
    ultimately show ?thesis by simp
  next
    fix n v m
    assume a: "n \<in> set [?a..?b]" "?body n = Some (Fin v, m)"
      "select_loop flt ?body [?a..?b] (PosInf, None, None) = (Fin v, m, Some n)"
      "\<forall>n'\<in>set [?a..?b]. \<forall>v' m'. ?body n' = Some (Fin v', m') \<longrightarrow>
          v \<le> v' \<and> (n' < n \<longrightarrow> v < v')"
    have sel: "SelectorBIC_select orc self = m"
      using a(3) by (simp add: SelectorBIC_select_def n_range_def)
    have cb: "candidate_BIC orc self n = Some v" and tc: "trained_candidate orc self n = m"
      using a(2) by (auto simp: body split: option.splits)
    obtain model where m: "m = Some model"
      using cb tc by (auto simp: candidate_BIC_def split: option.splits)
    have "\<forall>n'\<in>set (n_range self). \<forall>v'. candidate_BIC orc self n' = Some v' \<longrightarrow>
                    v \<le> v' \<and> (n' < n \<longrightarrow> v < v')"
    proof (intro ballI allI impI)
      fix n' v'
      assume "n' \<in> set (n_range self)" and "candidate_BIC orc self n' = Some v'"
      then have "n' \<in> set [?a..?b]"
        and "?body n' = Some (Fin v', trained_candidate orc self n')"
        by (simp_all add: n_range_def body)
      with a(4) show "v \<le> v' \<and> (n' < n \<longrightarrow> v < v')" by blast
    qed
    moreover have "n \<in> set (n_range self)" using a(1) by (simp add: n_range_def)
    ultimately show ?thesis using sel m cb tc by auto
  qed
  have "(\<forall>n\<in>set (n_range self). base_model orc self n = None) \<longrightarrow>
             SelectorBIC_select orc self = None"
  proof
    assume "\<forall>n\<in>set (n_range self). base_model orc self n = None"
    then have "\<forall>n\<in>set (n_range self). ?body n = None"
      by (simp add: bic_body_def)
    then show "SelectorBIC_select orc self = None"
      by (simp add: SelectorBIC_select_def select_loop_all_fail)
  qed
  with main show ?thesis by simp
qed

text \<open>
  Claim C1.  For a category with at least one frame, \<^verbatim>\<open>SelectorBIC.select\<close> returns the
  trained model of the candidate whose BIC value \<open>-2 logL + p ln N\<close>,
  \<open>p = n\<^sup>2 + 2 n d - 1\<close>, is the least among all state counts from \<open>min_n_components\<close> to
  \<open>max_n_components\<close> that were fitted and scored; among candidates of equal BIC the one
  of least \<open>n\<close> wins; the result is \<open>None\<close> exactly when no state count of that interval
  has a BIC value, in particular when none can be fitted.
\<close>

theorem SelectorBIC_select_lowest:
  assumes "X self \<noteq> []"
  shows "(case SelectorBIC_select orc self of
            None \<Rightarrow> \<forall>n\<in>{min_n_components self..max_n_components self}.
                       candidate_BIC orc self n = None
          | Some model \<Rightarrow>
              \<exists>n v. n \<in> {min_n_components self..max_n_components self} \<and>
                trained_candidate orc self n = Some model \<and>
                candidate_BIC orc self n = Some v \<and>
                (\<forall>n'\<in>{min_n_components self..max_n_components self}.
                    \<forall>v'. candidate_BIC orc self n' = Some v' \<longrightarrow>
                      v \<le> v' \<and> (n' < n \<longrightarrow> v < v')))
       \<and> ((\<forall>n\<in>{min_n_components self..max_n_components self}. base_model orc self n = None)
             \<longrightarrow> SelectorBIC_select orc self = None)"
  using SelectorBIC_select_lowest_n_range [OF assms, of orc, unfolded n_range_def set_upto] .

lemma n_range_cat_dog: "n_range cat_dog = [2, 3, 4]"
  by (simp add: n_range_def cat_dog_def upto.simps)

lemma cat_dog_interval:
  "{min_n_components cat_dog..max_n_components cat_dog} = {2, 3, 4}"
  by (auto simp: cat_dog_def)

lemma rising_trained_candidate:
  "trained_candidate rising_oracle cat_dog n = Some \<lparr>n_components = n, params = Some n\<rparr>"
  by (simp add: trained_candidate_def base_model_def fit_def GaussianHMM_def rising_oracle_def)

lemma rising_score:
  "score rising_oracle \<lparr>n_components = n, params = p\<rparr> x l
     = Some (- (10 * real_of_int (4 - n) * real (length x)))"
  by (simp add: score_def rising_oracle_def)

lemma rising_n_features: "hmm_n_features rising_oracle m = 1"
  by (simp add: rising_oracle_def)

lemma cat_dog_X: "X cat_dog = [1, 2, 3]" "lengths cat_dog = [2, 1]"
  by (simp_all add: cat_dog_def)

lemma rising_candidate_BIC:
  "candidate_BIC rising_oracle cat_dog 2 = Some (120 + 7 * ln 3)"
  "candidate_BIC rising_oracle cat_dog 3 = Some (60 + 14 * ln 3)"
  "candidate_BIC rising_oracle cat_dog 4 = Some (23 * ln 3)"
  by (simp_all add: candidate_BIC_def rising_trained_candidate rising_score cat_dog_X
        BIC_value_def rising_n_features)

theorem SelectorBIC_select_lowest_witness:
  "X cat_dog \<noteq> [] \<and>
   SelectorBIC_select rising_oracle cat_dog = Some \<lparr>n_components = 4, params = Some 4\<rparr> \<and>
   max_n_components cat_dog = 4 \<and>
   candidate_BIC rising_oracle cat_dog 2 = Some (120 + 7 * ln 3) \<and>
   candidate_BIC rising_oracle cat_dog 3 = Some (60 + 14 * ln 3) \<and>
   candidate_BIC rising_oracle cat_dog 4 = Some (23 * ln 3)"
proof -
  have ne: "X cat_dog \<noteq> []" by (simp add: cat_dog_def)
  have up: "ln (3::real) \<le> 2" using ln_le_minus_one [of "3::real"] by simp
  note inst = SelectorBIC_select_lowest [OF ne, of rising_oracle, THEN conjunct1]
  have "SelectorBIC_select rising_oracle cat_dog = Some \<lparr>n_components = 4, params = Some 4\<rparr>"
  proof (cases "SelectorBIC_select rising_oracle cat_dog")
    case None
    with inst have "candidate_BIC rising_oracle cat_dog 4 = None"
      by (simp add: cat_dog_interval)
    then show ?thesis by (simp add: rising_candidate_BIC)
  next
    case (Some model)
    with inst obtain n v where n: "n \<in> {min_n_components cat_dog..max_n_components cat_dog}"
      and tc: "trained_candidate rising_oracle cat_dog n = Some model"
      and cb: "candidate_BIC rising_oracle cat_dog n = Some v"
      and least: "\<forall>n'\<in>{min_n_components cat_dog..max_n_components cat_dog}.
                    \<forall>v'. candidate_BIC rising_oracle cat_dog n' = Some v'
                    \<longrightarrow> v \<le> v' \<and> (n' < n \<longrightarrow> v < v')"
      by auto
    from least have le4: "v \<le> 23 * ln 3"
      by (simp add: cat_dog_interval rising_candidate_BIC)
    from n have "n = 2 \<or> n = 3 \<or> n = 4" by (simp add: cat_dog_interval)
    then have "n = 4"
    proof (elim disjE)
      assume "n = 2"
      with cb have "v = 120 + 7 * ln 3" by (simp add: rising_candidate_BIC)
      with le4 up show ?thesis by simp
    next
      assume "n = 3"
      with cb have "v = 60 + 14 * ln 3" by (simp add: rising_candidate_BIC)
      with le4 up show ?thesis by simp
    qed simp
    with tc Some show ?thesis by (simp add: rising_trained_candidate)
  qed
  moreover have "max_n_components cat_dog = 4" by (simp add: cat_dog_def)
  ultimately show ?thesis using ne by (simp add: rising_candidate_BIC)
qed

section \<open>Properties of SelectorDIC\<close>

lemma those_None_mem: "None \<in> set xs \<Longrightarrow> those xs = None"
  by (induction xs) (auto split: option.splits)

lemma those_Some_map: "those xs = Some ys \<Longrightarrow> xs = map Some ys"
  by (induction xs arbitrary: ys) (auto split: option.splits)

lemma anti_loop_those:
  "anti_loop orc model this hw (c, s) =
     (case those (map (\<lambda>entry. score orc model (fst (snd entry)) (snd (snd entry)))
                   (filter (\<lambda>entry. fst entry \<noteq> this) hw)) of
        None \<Rightarrow> None
      | Some lls \<Rightarrow> Some (c + length lls, s + sum_list lls))"
proof (induction hw arbitrary: c s)
  case Nil
  show ?case by simp
next
  case (Cons e hw)
  obtain w ax al where e: "e = (w, ax, al)" by (cases e)
  show ?case
  proof (cases "w = this")
    case True
    then show ?thesis using Cons.IH [of c s] by (simp add: e)
  next
    case False
    show ?thesis
    proof (cases "score orc model ax al")
      case None
      then show ?thesis using False by (simp add: e)
    next
      case (Some ll)
      then show ?thesis using False Cons.IH [of "c + 1" "s + ll"]
        by (simp add: e split: option.splits)
    qed
  qed
qed

lemma dic_body_candidate:
  "dic_body orc self n =
     (case candidate_DIC orc self n of
        None \<Rightarrow> None
      | Some v \<Rightarrow> Some (Fin v, trained_candidate orc self n))"
  by (auto simp: dic_body_def candidate_DIC_def trained_candidate_def anti_loop_those
        anti_lls_def other_words_def split: option.splits)

lemma SelectorDIC_select_highest_n_range:
  "(case SelectorDIC_select orc self of
      None \<Rightarrow> \<forall>n\<in>set (n_range self). candidate_DIC orc self n = None
    | Some model \<Rightarrow>
        \<exists>n v. n \<in> set (n_range self) \<and> trained_candidate orc self n = Some model \<and>
          candidate_DIC orc self n = Some v \<and>
          (\<forall>n'\<in>set (n_range self). \<forall>v'. candidate_DIC orc self n' = Some v' \<longrightarrow>
              v' \<le> v \<and> (n' < n \<longrightarrow> v' < v)))
   \<and> ((\<forall>n\<in>set (n_range self). base_model orc self n = None) \<longrightarrow>
         SelectorDIC_select orc self = None)"
proof -
  let ?body = "dic_body orc self"
  let ?a = "min_n_components self" and ?b = "max_n_components self"
  note body = dic_body_candidate [of orc self]
  have fin: "\<forall>n\<in>set [?a..?b]. \<forall>sc m. ?body n = Some (sc, m) \<longrightarrow> (\<exists>v. sc = Fin v)"
    by (auto simp: body split: option.splits)
  have main: "case SelectorDIC_select orc self of
      None \<Rightarrow> \<forall>n\<in>set (n_range self). candidate_DIC orc self n = None
    | Some model \<Rightarrow>
        \<exists>n v. n \<in> set (n_range self) \<and> trained_candidate orc self n = Some model \<and>
          candidate_DIC orc self n = Some v \<and>
          (\<forall>n'\<in>set (n_range self). \<forall>v'. candidate_DIC orc self n' = Some v' \<longrightarrow>
              v' \<le> v \<and> (n' < n \<longrightarrow> v' < v))"
    using select_loop_range [of ?a ?b ?body fgt uminus NegInf None, OF fin fgt_Fin_Fin fgt_Fin_NegInf]
  proof (elim disjE exE conjE)
    assume u: "select_loop fgt ?body [?a..?b] (NegInf, None, None) = (NegInf, None, None)"
      and w: "\<forall>n\<in>set [?a..?b]. ?body n = None"
    have "\<forall>n\<in>set (n_range self). candidate_DIC orc self n = None"
    proof
      fix n assume "n \<in> set (n_range self)"
      with w have "?body n = None" by (simp add: n_range_def)
      then show "candidate_DIC orc self n = None"
        by (simp add: body split: option.splits)
    qed
    moreover have "SelectorDIC_select orc self = None"
      using u by (simp add: SelectorDIC_select_def n_range_def)
    ultimately show ?thesis by simp
  next
    fix n v m
    assume a: "n \<in> set [?a..?b]" "?body n = Some (Fin v, m)"
      "select_loop fgt ?body [?a..?b] (NegInf, None, None) = (Fin v, m, Some n)"
      "\<forall>n'\<in>set [?a..?b]. \<forall>v' m'. ?body n' = Some (Fin v', m') \<longrightarrow>
          - v \<le> - v' \<and> (n' < n \<longrightarrow> - v < - v')"
    have sel: "SelectorDIC_select orc self = m"
      using a(3) by (simp add: SelectorDIC_select_def n_range_def)
    have cb: "candidate_DIC orc self n = Some v" and tc: "trained_candidate orc self n = m"
      using a(2) by (auto simp: body split: option.splits)
    obtain model where m: "m = Some model"
      using cb tc by (auto simp: candidate_DIC_def split: option.splits)
    have "\<forall>n'\<in>set (n_range self). \<forall>v'. candidate_DIC orc self n' = Some v' \<longrightarrow>
                    v' \<le> v \<and> (n' < n \<longrightarrow> v' < v)"
    proof (intro ballI allI impI)
      fix n' v'
      assume "n' \<in> set (n_range self)" and "candidate_DIC orc self n' = Some v'"
      then have "n' \<in> set [?a..?b]"
        and "?body n' = Some (Fin v', trained_candidate orc self n')"
        by (simp_all add: n_range_def body)
      with a(4) have "- v \<le> - v' \<and> (n' < n \<longrightarrow> - v < - v')" by blast
      then show "v' \<le> v \<and> (n' < n \<longrightarrow> v' < v)" by simp
    qed
    moreover have "n \<in> set (n_range self)" using a(1) by (simp add: n_range_def)
    ultimately show ?thesis using sel m cb tc by auto
  qed
  have "(\<forall>n\<in>set (n_range self). base_model orc self n = None) \<longrightarrow>
             SelectorDIC_select orc self = None"
  proof
    assume "\<forall>n\<in>set (n_range self). base_model orc self n = None"
    then have "\<forall>n\<in>set (n_range self). ?body n = None"
      by (simp add: dic_body_def)
    then show "SelectorDIC_select orc self = None"
      by (simp add: SelectorDIC_select_def select_loop_all_fail)
  qed
  with main show ?thesis by simp
qed

text \<open>
  Claim C3.  \<^verbatim>\<open>SelectorDIC.select\<close> returns the trained model of the candidate whose DIC
  value, the model's log-likelihood on its own category minus the mean of its
  log-likelihoods on every other category, is the highest among all state counts from
  \<open>min_n_components\<close> to \<open>max_n_components\<close> that have one; among candidates of equal DIC
  the one met first wins; the result is \<open>None\<close> exactly when no state count of that
  interval has a DIC value, in particular when none can be fitted.
\<close>

theorem SelectorDIC_select_highest:
  "(case SelectorDIC_select orc self of
      None \<Rightarrow> \<forall>n\<in>{min_n_components self..max_n_components self}.
                 candidate_DIC orc self n = None
    | Some model \<Rightarrow>
        \<exists>n v. n \<in> {min_n_components self..max_n_components self} \<and>
          trained_candidate orc self n = Some model \<and>
          candidate_DIC orc self n = Some v \<and>
          (\<forall>n'\<in>{min_n_components self..max_n_components self}.
              \<forall>v'. candidate_DIC orc self n' = Some v' \<longrightarrow>
                v' \<le> v \<and> (n' < n \<longrightarrow> v' < v)))
   \<and> ((\<forall>n\<in>{min_n_components self..max_n_components self}. base_model orc self n = None)
         \<longrightarrow> SelectorDIC_select orc self = None)"
  using SelectorDIC_select_highest_n_range [where orc = orc and self = self, unfolded n_range_def set_upto] .

lemma cat_dog_others:
  "hwords cat_dog = [(''CAT'', [1, 2, 3], [2, 1]), (''DOG'', [4, 5], [1, 1]), (''EEL'', [6], [1])]"
  "this_word cat_dog = ''CAT''"
  by (simp_all add: cat_dog_def)

lemma rising_candidate_DIC:
  "candidate_DIC rising_oracle cat_dog 2 = Some (- 30)"
  "candidate_DIC rising_oracle cat_dog 3 = Some (- 15)"
  "candidate_DIC rising_oracle cat_dog 4 = Some 0"
  by (simp_all add: candidate_DIC_def rising_trained_candidate rising_score cat_dog_X
        anti_lls_def other_words_def cat_dog_others)

theorem SelectorDIC_select_highest_witness:
  "SelectorDIC_select rising_oracle cat_dog = Some \<lparr>n_components = 4, params = Some 4\<rparr> \<and>
   max_n_components cat_dog = 4 \<and>
   candidate_DIC rising_oracle cat_dog 2 = Some (- 30) \<and>
   candidate_DIC rising_oracle cat_dog 3 = Some (- 15) \<and>
   candidate_DIC rising_oracle cat_dog 4 = Some 0"
proof -
  note inst = SelectorDIC_select_highest [where orc = rising_oracle and self = cat_dog,
      THEN conjunct1]
  have "SelectorDIC_select rising_oracle cat_dog = Some \<lparr>n_components = 4, params = Some 4\<rparr>"
  proof (cases "SelectorDIC_select rising_oracle cat_dog")
    case None
    with inst have "candidate_DIC rising_oracle cat_dog 4 = None"
      by (simp add: cat_dog_interval)
    then show ?thesis by (simp add: rising_candidate_DIC)
  next
    case (Some model)
    with inst obtain n v where n: "n \<in> {min_n_components cat_dog..max_n_components cat_dog}"
      and tc: "trained_candidate rising_oracle cat_dog n = Some model"
      and cb: "candidate_DIC rising_oracle cat_dog n = Some v"
      and most: "\<forall>n'\<in>{min_n_components cat_dog..max_n_components cat_dog}.
                    \<forall>v'. candidate_DIC rising_oracle cat_dog n' = Some v'
                    \<longrightarrow> v' \<le> v \<and> (n' < n \<longrightarrow> v' < v)"
      by auto
    from most have ge: "0 \<le> v"
      by (simp add: cat_dog_interval rising_candidate_DIC)
    from n have "n = 2 \<or> n = 3 \<or> n = 4" by (simp add: cat_dog_interval)
    then have "n = 4"
    proof (elim disjE)
      assume "n = 2"
      with cb have "v = - 30" by (simp add: rising_candidate_DIC)
      with ge show ?thesis by simp
    next
      assume "n = 3"
      with cb have "v = - 15" by (simp add: rising_candidate_DIC)
      with ge show ?thesis by simp
    qed simp
    with tc Some show ?thesis by (simp add: rising_trained_candidate)
  qed
  moreover have "max_n_components cat_dog = 4" by (simp add: cat_dog_def)
  ultimately show ?thesis by (simp add: rising_candidate_DIC)
qed

lemma picky_trained_candidate:
  "trained_candidate picky_oracle cat_dog n = Some \<lparr>n_components = n, params = Some n\<rparr>"
  by (simp add: trained_candidate_def base_model_def fit_def GaussianHMM_def picky_oracle_def)

lemma picky_anti_lls:
  "anti_lls picky_oracle \<lparr>n_components = n, params = Some n\<rparr> cat_dog
     = [None, Some (- real_of_int n)]"
  by (simp add: anti_lls_def other_words_def score_def picky_oracle_def cat_dog_def)

lemma picky_score_own:
  "score picky_oracle m (X cat_dog) (lengths cat_dog) = Some (- (real_of_int (n_components m) * 3))"
  by (simp add: score_def picky_oracle_def cat_dog_def)

text \<open>
  Claim C5 says that a scoring failure against one foreign category only drops that
  category from the mean.  The source has no \<^verbatim>\<open>try\<close> around the inner loop: with a model
  that scores its own category and EEL but raises on DOG, the candidate is skipped, and
  since this happens at every state count the selector returns \<open>None\<close>.
\<close>

theorem SelectorDIC_foreign_failure_counterexample:
  "trained_candidate picky_oracle cat_dog 2 = Some \<lparr>n_components = 2, params = Some 2\<rparr> \<and>
   score picky_oracle \<lparr>n_components = 2, params = Some 2\<rparr> (X cat_dog) (lengths cat_dog)
     = Some (- 6) \<and>
   anti_lls picky_oracle \<lparr>n_components = 2, params = Some 2\<rparr> cat_dog = [None, Some (- 2)] \<and>
   dic_body picky_oracle cat_dog 2 = None \<and>
   SelectorDIC_select picky_oracle cat_dog = None"
proof -
  have body: "\<And>n. dic_body picky_oracle cat_dog n = None"
    by (simp add: dic_body_candidate candidate_DIC_def picky_trained_candidate picky_anti_lls
          picky_score_own)
  have "SelectorDIC_select picky_oracle cat_dog = None"
    by (simp add: SelectorDIC_select_def select_loop_all_fail body)
  moreover have "score picky_oracle \<lparr>n_components = 2, params = Some 2\<rparr> (X cat_dog) (lengths cat_dog)
     = Some (- 6)"
    by (simp add: picky_score_own)
  ultimately show ?thesis
    using picky_anti_lls [of 2] by (simp add: picky_trained_candidate body)
qed

text \<open>
  Claim C5, amended.  In \<^verbatim>\<open>SelectorDIC.select\<close> a candidate is skipped when it cannot be
  fitted, and also when scoring it against any one foreign category fails; a candidate
  that is given a score has been scored against every other category, so that the
  number of averaged categories is the same for all candidates.
\<close>

theorem SelectorDIC_foreign_failure_skips:
  "(trained_candidate orc self n = None \<longrightarrow> dic_body orc self n = None) \<and>
   (\<forall>model. trained_candidate orc self n = Some model \<and> None \<in> set (anti_lls orc model self)
       \<longrightarrow> dic_body orc self n = None) \<and>
   (\<forall>sc m. dic_body orc self n = Some (sc, m) \<longrightarrow>
       (\<exists>model logL anti. m = Some model \<and> trained_candidate orc self n = Some model \<and>
          score orc model (X self) (lengths self) = Some logL \<and>
          anti_lls orc model self = map Some anti \<and>
          length anti = length (other_words self) \<and> anti \<noteq> [] \<and>
          sc = Fin (logL - sum_list anti / real (length (other_words self)))))"
proof (intro conjI allI impI)
  assume "trained_candidate orc self n = None"
  then show "dic_body orc self n = None"
    by (simp add: dic_body_candidate candidate_DIC_def)
next
  fix model
  assume "trained_candidate orc self n = Some model \<and> None \<in> set (anti_lls orc model self)"
  then show "dic_body orc self n = None"
    by (simp add: dic_body_candidate candidate_DIC_def those_None_mem split: option.splits)
next
  fix sc m
  assume b: "dic_body orc self n = Some (sc, m)"
  then obtain v where cd: "candidate_DIC orc self n = Some v" and sc: "sc = Fin v"
    and m: "m = trained_candidate orc self n"
    by (auto simp: dic_body_candidate split: option.splits)
  from cd obtain model logL anti where tc: "trained_candidate orc self n = Some model"
    and sl: "score orc model (X self) (lengths self) = Some logL"
    and th: "those (anti_lls orc model self) = Some anti"
    and ne: "anti \<noteq> []" and v: "v = logL - sum_list anti / real (length anti)"
    by (auto simp: candidate_DIC_def split: option.splits if_splits)
  have mp: "anti_lls orc model self = map Some anti"
    using those_Some_map [OF th] .
  then have "length (anti_lls orc model self) = length anti" by simp
  then have len: "length anti = length (other_words self)"
    by (simp add: anti_lls_def)
  show "\<exists>model logL anti. m = Some model \<and> trained_candidate orc self n = Some model \<and>
          score orc model (X self) (lengths self) = Some logL \<and>
          anti_lls orc model self = map Some anti \<and>
          length anti = length (other_words self) \<and> anti \<noteq> [] \<and>
          sc = Fin (logL - sum_list anti / real (length (other_words self)))"
    using m tc sl mp len ne sc v by auto
qed

theorem SelectorDIC_foreign_failure_skips_witness:
  "trained_candidate picky_oracle cat_dog 3 = Some \<lparr>n_components = 3, params = Some 3\<rparr> \<and>
   None \<in> set (anti_lls picky_oracle \<lparr>n_components = 3, params = Some 3\<rparr> cat_dog) \<and>
   dic_body picky_oracle cat_dog 3 = None"
proof -
  have h: "trained_candidate picky_oracle cat_dog 3 = Some \<lparr>n_components = 3, params = Some 3\<rparr> \<and>
      None \<in> set (anti_lls picky_oracle \<lparr>n_components = 3, params = Some 3\<rparr> cat_dog)"
    by (simp add: picky_trained_candidate picky_anti_lls)
  from SelectorDIC_foreign_failure_skips [where orc = picky_oracle and self = cat_dog and n = 3]
  have "dic_body picky_oracle cat_dog 3 = None" using h by blast
  with h show ?thesis by simp
qed

section \<open>Properties of SelectorCV\<close>

lemma length_kfold_folds: "length (kfold_folds n sizes current) = length sizes"
  by (induction sizes arbitrary: current) auto

lemma KFold_split_length: "KFold_split k n = Some split \<Longrightarrow> length split = k \<and> 2 \<le> k"
  by (auto simp: KFold_split_def length_kfold_folds split: if_splits)

lemma KFold_split_few: "n \<le> 1 \<Longrightarrow> KFold_split (min 3 n) n = None"
  by (simp add: KFold_split_def)

lemma cv_folds_no_model: "split \<noteq> [] \<Longrightarrow> cv_folds orc seqs split None sc = None"
  by (cases split) (auto split: option.splits)

lemma cv_folds_heldout:
  "cv_folds orc seqs split (Some m) sc =
     (case heldout_lls orc seqs split m of
        None \<Rightarrow> None
      | Some (lls, m') \<Rightarrow> Some (sc + sum_list lls, Some m'))"
proof (induction split arbitrary: m sc)
  case Nil
  show ?case by simp
next
  case (Cons f split)
  obtain tr te where f: "f = (tr, te)" by (cases f)
  show ?case
    by (simp add: f Cons.IH split: option.splits prod.splits)
qed

lemma heldout_lls_length:
  "heldout_lls orc seqs split m = Some (lls, m') \<Longrightarrow> length lls = length split"
proof (induction split arbitrary: m lls)
  case Nil
  then show ?case by simp
next
  case (Cons f split)
  obtain tr te where f: "f = (tr, te)" by (cases f)
  from Cons.prems show ?case
    by (auto simp: f split: option.splits prod.splits dest: Cons.IH)
qed

lemma fit_n_components: "fit orc m x l = Some m' \<Longrightarrow> n_components m' = n_components m"
  by (auto simp: fit_def split: option.splits)

lemma base_model_n_components: "base_model orc self n = Some m \<Longrightarrow> n_components m = n"
  by (auto simp: base_model_def GaussianHMM_def split: option.splits dest: fit_n_components)

lemma heldout_lls_n_components:
  "heldout_lls orc seqs split m = Some (lls, m') \<Longrightarrow> n_components m' = n_components m"
proof (induction split arbitrary: m lls)
  case Nil
  then show ?case by simp
next
  case (Cons f split)
  obtain tr te where f: "f = (tr, te)" by (cases f)
  from Cons.prems show ?case
    by (auto simp: f split: option.splits prod.splits dest!: Cons.IH fit_n_components)
qed

lemma cv_body_candidate:
  "cv_body orc self (min 3 (length (sequences self))) n =
     (case candidate_CV orc self n of
        None \<Rightarrow> None
      | Some (v, m) \<Rightarrow> Some (Fin v, Some m))"
proof (cases "KFold_split (min 3 (length (sequences self))) (length (sequences self))")
  case None
  then show ?thesis
    by (simp add: cv_body_def candidate_CV_def split: option.splits)
next
  case (Some split)
  note kl = KFold_split_length [OF Some]
  then have ne: "split \<noteq> []" by auto
  show ?thesis
  proof (cases "base_model orc self n")
    case None
    then show ?thesis
      using Some ne by (simp add: cv_body_def candidate_CV_def cv_folds_no_model)
  next
    case (Some m0)
    show ?thesis
    proof (cases "heldout_lls orc (sequences self) split m0")
      case None
      then show ?thesis
        using Some \<open>KFold_split _ _ = Some split\<close>
        by (simp add: cv_body_def candidate_CV_def cv_folds_heldout)
    next
      case (Some r)
      obtain lls m where r: "r = (lls, m)" by (cases r)
      have "length lls = min 3 (length (sequences self))"
        using heldout_lls_length Some r kl by fastforce
      moreover have "sequences self \<noteq> []" using kl by auto
      ultimately show ?thesis
        using Some r \<open>base_model orc self n = Some m0\<close> \<open>KFold_split _ _ = Some split\<close>
        by (simp add: cv_body_def candidate_CV_def cv_folds_heldout)
    qed
  qed
qed

lemma cv_search_winner:
  "case cv_search orc self of
      (best_score, best_model, best_n) \<Rightarrow>
        (case best_n of
           None \<Rightarrow> best_model = None \<and>
             (\<forall>n\<in>set (n_range self). candidate_CV orc self n = None)
         | Some n \<Rightarrow> n \<in> set (n_range self) \<and>
             (\<exists>v m. candidate_CV orc self n = Some (v, m) \<and>
                best_score = Fin v \<and> best_model = Some m \<and>
                (\<forall>n'\<in>set (n_range self). \<forall>v' m'. candidate_CV orc self n' = Some (v', m') \<longrightarrow>
                    v' \<le> v \<and> (n' < n \<longrightarrow> v' < v))))"
proof -
  let ?k = "min 3 (length (sequences self))"
  let ?body = "cv_body orc self ?k"
  let ?a = "min_n_components self" and ?b = "max_n_components self"
  note body = cv_body_candidate [of orc self]
  have fin: "\<forall>n\<in>set [?a..?b]. \<forall>sc m. ?body n = Some (sc, m) \<longrightarrow> (\<exists>v. sc = Fin v)"
    by (auto simp: body split: option.splits)
  show ?thesis
    using select_loop_range [of ?a ?b ?body fgt uminus NegInf None, OF fin fgt_Fin_Fin fgt_Fin_NegInf]
  proof (elim disjE exE conjE)
    assume u: "select_loop fgt ?body [?a..?b] (NegInf, None, None) = (NegInf, None, None)"
      and w: "\<forall>n\<in>set [?a..?b]. ?body n = None"
    have "\<forall>n\<in>set (n_range self). candidate_CV orc self n = None"
    proof
      fix n assume "n \<in> set (n_range self)"
      with w have "?body n = None" by (simp add: n_range_def)
      then show "candidate_CV orc self n = None"
        by (simp add: body split: option.splits prod.splits)
    qed
    moreover have "cv_search orc self = (NegInf, None, None)"
      using u by (simp add: cv_search_def n_range_def)
    ultimately show ?thesis by simp
  next
    fix n v m
    assume a: "n \<in> set [?a..?b]" "?body n = Some (Fin v, m)"
      "select_loop fgt ?body [?a..?b] (NegInf, None, None) = (Fin v, m, Some n)"
      "\<forall>n'\<in>set [?a..?b]. \<forall>v' m'. ?body n' = Some (Fin v', m') \<longrightarrow>
          - v \<le> - v' \<and> (n' < n \<longrightarrow> - v < - v')"
    have sel: "cv_search orc self = (Fin v, m, Some n)"
      using a(3) by (simp add: cv_search_def n_range_def)
    obtain model where cb: "candidate_CV orc self n = Some (v, model)" and m: "m = Some model"
      using a(2) by (auto simp: body split: option.splits)
    have "\<forall>n'\<in>set (n_range self). \<forall>v' m'. candidate_CV orc self n' = Some (v', m') \<longrightarrow>
                    v' \<le> v \<and> (n' < n \<longrightarrow> v' < v)"
    proof (intro ballI allI impI)
      fix n' v' m'
      assume "n' \<in> set (n_range self)" and "candidate_CV orc self n' = Some (v', m')"
      then have "n' \<in> set [?a..?b]" and "?body n' = Some (Fin v', Some m')"
        by (simp_all add: n_range_def body)
      with a(4) have "- v \<le> - v' \<and> (n' < n \<longrightarrow> - v < - v')" by blast
      then show "v' \<le> v \<and> (n' < n \<longrightarrow> v' < v)" by simp
    qed
    moreover have "n \<in> set (n_range self)" using a(1) by (simp add: n_range_def)
    ultimately show ?thesis using sel m cb by simp
  qed
qed

lemma cv_body_mean:
  assumes b: "cv_body orc self (min 3 (length (sequences self))) n = Some (sc, m)"
  shows "\<exists>m0 split lls m'.
            base_model orc self n = Some m0 \<and>
            KFold_split (min 3 (length (sequences self))) (length (sequences self)) = Some split \<and>
            length split = min 3 (length (sequences self)) \<and>
            heldout_lls orc (sequences self) split m0 = Some (lls, m') \<and>
            length lls = min 3 (length (sequences self)) \<and>
            sc = Fin (sum_list lls / real (min 3 (length (sequences self)))) \<and> m = Some m'"
proof -
  let ?k = "min 3 (length (sequences self))"
  from b obtain v m' where cc: "candidate_CV orc self n = Some (v, m')"
    and sc: "sc = Fin v" and m: "m = Some m'"
    by (auto simp: cv_body_candidate split: option.splits)
  from cc obtain m0 split lls where bm: "base_model orc self n = Some m0"
    and ks: "KFold_split ?k (length (sequences self)) = Some split"
    and hl: "heldout_lls orc (sequences self) split m0 = Some (lls, m')"
    and v: "v = sum_list lls / real (length lls)"
    by (auto simp: candidate_CV_def split: option.splits)
  have l1: "length split = ?k" using KFold_split_length [OF ks] by simp
  have l2: "length lls = ?k" using heldout_lls_length [OF hl] l1 by simp
  show ?thesis
    using bm ks hl l1 l2 sc m v by auto
qed

lemma cv_search_winner_interval:
  "case cv_search orc self of
      (best_score, best_model, best_n) \<Rightarrow>
        (case best_n of
           None \<Rightarrow> best_model = None \<and>
             (\<forall>n\<in>{min_n_components self..max_n_components self}.
                 candidate_CV orc self n = None)
         | Some n \<Rightarrow> n \<in> {min_n_components self..max_n_components self} \<and>
             (\<exists>v m. candidate_CV orc self n = Some (v, m) \<and>
                best_score = Fin v \<and> best_model = Some m \<and>
                (\<forall>n'\<in>{min_n_components self..max_n_components self}.
                    \<forall>v' m'. candidate_CV orc self n' = Some (v', m') \<longrightarrow>
                      v' \<le> v \<and> (n' < n \<longrightarrow> v' < v))))"
  using cv_search_winner [where orc = orc and self = self, unfolded n_range_def set_upto] .

text \<open>
  Claim C4.  \<^verbatim>\<open>SelectorCV\<close> splits the category into \<open>k = min 3 (number of sequences)\<close>
  folds.  A candidate that gets a score has gone through exactly \<open>k\<close> folds and its score
  is the sum of the \<open>k\<close> held-out log-likelihoods divided by \<open>k\<close>; a candidate one of whose
  folds fails to fit or to score gets no score and is skipped; the search ends at the
  state count of highest mean among all those from \<open>min_n_components\<close> to
  \<open>max_n_components\<close>, the first one among equals, or without a model when none of them
  has a mean.
\<close>

theorem SelectorCV_search_mean_of_folds:
  "(case cv_search orc self of
      (best_score, best_model, best_n) \<Rightarrow>
        (case best_n of
           None \<Rightarrow> best_model = None \<and>
             (\<forall>n\<in>{min_n_components self..max_n_components self}.
                 candidate_CV orc self n = None)
         | Some n \<Rightarrow> n \<in> {min_n_components self..max_n_components self} \<and>
             (\<exists>v m. candidate_CV orc self n = Some (v, m) \<and>
                best_score = Fin v \<and> best_model = Some m \<and>
                (\<forall>n'\<in>{min_n_components self..max_n_components self}.
                    \<forall>v' m'. candidate_CV orc self n' = Some (v', m') \<longrightarrow>
                      v' \<le> v \<and> (n' < n \<longrightarrow> v' < v)))))
   \<and> (\<forall>n sc m. cv_body orc self (min 3 (length (sequences self))) n = Some (sc, m) \<longrightarrow>
         (\<exists>m0 split lls m'.
            base_model orc self n = Some m0 \<and>
            KFold_split (min 3 (length (sequences self))) (length (sequences self)) = Some split \<and>
            length split = min 3 (length (sequences self)) \<and>
            heldout_lls orc (sequences self) split m0 = Some (lls, m') \<and>
            length lls = min 3 (length (sequences self)) \<and>
            sc = Fin (sum_list lls / real (min 3 (length (sequences self)))) \<and> m = Some m'))
   \<and> (\<forall>n m0 split.
         base_model orc self n = Some m0 \<and>
         KFold_split (min 3 (length (sequences self))) (length (sequences self)) = Some split \<and>
         heldout_lls orc (sequences self) split m0 = None \<longrightarrow>
         cv_body orc self (min 3 (length (sequences self))) n = None)"
proof (intro conjI allI impI)
  show "case cv_search orc self of
      (best_score, best_model, best_n) \<Rightarrow>
        (case best_n of
           None \<Rightarrow> best_model = None \<and>
             (\<forall>n\<in>{min_n_components self..max_n_components self}.
                 candidate_CV orc self n = None)
         | Some n \<Rightarrow> n \<in> {min_n_components self..max_n_components self} \<and>
             (\<exists>v m. candidate_CV orc self n = Some (v, m) \<and>
                best_score = Fin v \<and> best_model = Some m \<and>
                (\<forall>n'\<in>{min_n_components self..max_n_components self}.
                    \<forall>v' m'. candidate_CV orc self n' = Some (v', m') \<longrightarrow>
                      v' \<le> v \<and> (n' < n \<longrightarrow> v' < v))))"
    by (rule cv_search_winner_interval)
next
  fix n sc m
  assume "cv_body orc self (min 3 (length (sequences self))) n = Some (sc, m)"
  then show "\<exists>m0 split lls m'.
            base_model orc self n = Some m0 \<and>
            KFold_split (min 3 (length (sequences self))) (length (sequences self)) = Some split \<and>
            length split = min 3 (length (sequences self)) \<and>
            heldout_lls orc (sequences self) split m0 = Some (lls, m') \<and>
            length lls = min 3 (length (sequences self)) \<and>
            sc = Fin (sum_list lls / real (min 3 (length (sequences self)))) \<and> m = Some m'"
    by (rule cv_body_mean)
next
  fix n m0 split
  assume "base_model orc self n = Some m0 \<and>
         KFold_split (min 3 (length (sequences self))) (length (sequences self)) = Some split \<and>
         heldout_lls orc (sequences self) split m0 = None"
  then show "cv_body orc self (min 3 (length (sequences self))) n = None"
    by (simp add: cv_body_candidate candidate_CV_def)
qed

lemma KFold_split_2_2: "KFold_split 2 2 = Some [([Suc 0], [0]), ([0], [Suc 0])]"
  by code_simp

lemma cat_dog_folds:
  "combine_sequences [0] (sequences cat_dog) = Some ([1, 2], [2])"
  "combine_sequences [Suc 0] (sequences cat_dog) = Some ([3], [1])"
  "min 3 (length (sequences cat_dog)) = 2"
  "length (sequences cat_dog) = 2"
  by (simp_all add: combine_sequences_def cat_dog_def)

lemma rising_base_model:
  "base_model rising_oracle cat_dog n = Some \<lparr>n_components = n, params = Some n\<rparr>"
  by (simp add: base_model_def fit_def GaussianHMM_def rising_oracle_def)

lemma rising_fit:
  "fit rising_oracle \<lparr>n_components = n, params = p\<rparr> x l
     = Some \<lparr>n_components = n, params = Some n\<rparr>"
  by (simp add: fit_def rising_oracle_def)

lemma rising_candidate_CV:
  "candidate_CV rising_oracle cat_dog 2 = Some (- 30, \<lparr>n_components = 2, params = Some 2\<rparr>)"
  "candidate_CV rising_oracle cat_dog 3 = Some (- 15, \<lparr>n_components = 3, params = Some 3\<rparr>)"
  "candidate_CV rising_oracle cat_dog 4 = Some (0, \<lparr>n_components = 4, params = Some 4\<rparr>)"
  by (simp_all add: candidate_CV_def rising_base_model cat_dog_folds KFold_split_2_2
        rising_fit rising_score)

theorem SelectorCV_search_mean_of_folds_witness:
  "cv_search rising_oracle cat_dog
     = (Fin 0, Some \<lparr>n_components = 4, params = Some 4\<rparr>, Some 4) \<and>
   max_n_components cat_dog = 4 \<and>
   candidate_CV rising_oracle cat_dog 2 = Some (- 30, \<lparr>n_components = 2, params = Some 2\<rparr>) \<and>
   candidate_CV rising_oracle cat_dog 3 = Some (- 15, \<lparr>n_components = 3, params = Some 3\<rparr>) \<and>
   candidate_CV rising_oracle cat_dog 4 = Some (0, \<lparr>n_components = 4, params = Some 4\<rparr>)"
proof -
  note inst = SelectorCV_search_mean_of_folds [where orc = rising_oracle and self = cat_dog,
      THEN conjunct1]
  obtain bs bm bn where r: "cv_search rising_oracle cat_dog = (bs, bm, bn)"
    by (cases "cv_search rising_oracle cat_dog")
  have "bs = Fin 0 \<and> bm = Some \<lparr>n_components = 4, params = Some 4\<rparr> \<and> bn = Some 4"
  proof (cases bn)
    case None
    with inst r have "candidate_CV rising_oracle cat_dog 4 = None"
      by (simp add: cat_dog_interval)
    then show ?thesis by (simp add: rising_candidate_CV)
  next
    case (Some n)
    with inst r obtain v m where n: "n \<in> {min_n_components cat_dog..max_n_components cat_dog}"
      and cb: "candidate_CV rising_oracle cat_dog n = Some (v, m)"
      and bs: "bs = Fin v" and bm: "bm = Some m"
      and most: "\<forall>n'\<in>{min_n_components cat_dog..max_n_components cat_dog}. \<forall>v' m'.
                   candidate_CV rising_oracle cat_dog n' = Some (v', m')
                    \<longrightarrow> v' \<le> v \<and> (n' < n \<longrightarrow> v' < v)"
      by auto
    from most have ge: "0 \<le> v"
      by (simp add: cat_dog_interval rising_candidate_CV)
    from n have "n = 2 \<or> n = 3 \<or> n = 4" by (simp add: cat_dog_interval)
    then have "n = 4"
    proof (elim disjE)
      assume "n = 2"
      with cb have "v = - 30" by (simp add: rising_candidate_CV)
      with ge show ?thesis by simp
    next
      assume "n = 3"
      with cb have "v = - 15" by (simp add: rising_candidate_CV)
      with ge show ?thesis by simp
    qed simp
    with cb bs bm Some show ?thesis by (simp add: rising_candidate_CV)
  qed
  moreover have "max_n_components cat_dog = 4" by (simp add: cat_dog_def)
  ultimately show ?thesis using r by (simp add: rising_candidate_CV)
qed

lemma cv_search_few_sequences:
  assumes "length (sequences self) \<le> 1"
  shows "cv_search orc self = (NegInf, None, None)"
proof -
  have "\<And>n. cv_body orc self (min 3 (length (sequences self))) n = None"
    using KFold_split_few [OF assms] by (simp add: cv_body_def)
  then show ?thesis
    by (simp add: cv_search_def select_loop_all_fail)
qed

text \<open>
  Claim C9.  On a category with a single sequence \<^verbatim>\<open>SelectorCV.select\<close> does not raise:
  the fold count is one, \<^verbatim>\<open>KFold\<close> refuses it inside the \<^verbatim>\<open>try\<close>, every candidate is
  skipped and the call returns \<open>None\<close>.
\<close>

theorem SelectorCV_select_single_sequence:
  "length (sequences self) = 1 \<Longrightarrow> SelectorCV_select orc self = Returned None"
  by (simp add: SelectorCV_select_def cv_search_few_sequences)

theorem SelectorCV_select_single_sequence_witness:
  "length (sequences lone_cat) = 1 \<and> SelectorCV_select toy_oracle lone_cat = Returned None"
proof -
  have h: "length (sequences lone_cat) = 1" by (simp add: lone_cat_def)
  from SelectorCV_select_single_sequence [OF h, of toy_oracle] h show ?thesis by simp
qed

lemma SelectorCV_select_cases:
  "SelectorCV_select orc self =
     (case cv_search orc self of
        (best_score, None, best_n) \<Rightarrow> Returned None
      | (best_score, Some m, best_n) \<Rightarrow>
          (case fit orc m (X self) (lengths self) of
             None \<Rightarrow> Raised
           | Some m' \<Rightarrow> Returned (Some m')))"
  by (simp add: SelectorCV_select_def split: prod.splits option.splits)

lemma candidate_CV_n_components:
  assumes "candidate_CV orc self n = Some (v, m)"
  shows "n_components m = n"
proof -
  from assms obtain m0 split lls where "base_model orc self n = Some m0"
    and "heldout_lls orc (sequences self) split m0 = Some (lls, m)"
    by (auto simp: candidate_CV_def split: option.splits)
  then show ?thesis
    using base_model_n_components heldout_lls_n_components by fastforce
qed

lemma fit_fresh:
  assumes "fit_ignores_state orc" and "fit orc m x l = Some m'"
  shows "fit orc (GaussianHMM (n_components m)) x l = Some m'"
proof -
  have eq: "hmm_fit orc m x l = hmm_fit orc (GaussianHMM (n_components m)) x l"
    using assms(1) by (simp add: fit_ignores_state_def)
  from assms(2) obtain p where p: "hmm_fit orc m x l = Some p" and m': "m' = m\<lparr>params := Some p\<rparr>"
    by (auto simp: fit_def split: option.splits)
  have "(GaussianHMM (n_components m) :: 'b hmm)\<lparr>params := Some p\<rparr> = m\<lparr>params := Some p\<rparr>"
    by (cases m) (simp add: GaussianHMM_def)
  then show ?thesis using p m' eq by (simp add: fit_def)
qed

text \<open>
  Claim C7.  The oracle's fit is a function of the state count and the data (it starts
  from scratch on every call).  When \<^verbatim>\<open>SelectorCV.select\<close> returns a model, the search
  has ended at the state count \<open>n\<close> of highest mean among those from \<open>min_n_components\<close>
  to \<open>max_n_components\<close>, and the model returned is what a new model of \<open>n\<close> states is
  after one fit on the whole category (\<open>X\<close> and \<open>lengths\<close>, not a fold): nothing of what
  the folds trained remains in it.
\<close>

theorem SelectorCV_select_refits_winner:
  assumes "fit_ignores_state orc"
  shows "SelectorCV_select orc self = Returned (Some model) \<longrightarrow>
     (\<exists>n v m. cv_search orc self = (Fin v, Some m, Some n) \<and>
        n \<in> {min_n_components self..max_n_components self} \<and>
        candidate_CV orc self n = Some (v, m) \<and>
        (\<forall>n'\<in>{min_n_components self..max_n_components self}.
            \<forall>v' m'. candidate_CV orc self n' = Some (v', m') \<longrightarrow>
              v' \<le> v \<and> (n' < n \<longrightarrow> v' < v)) \<and>
        fit orc (GaussianHMM n) (X self) (lengths self) = Some model \<and>
        n_components model = n)"
proof
  assume ret: "SelectorCV_select orc self = Returned (Some model)"
  obtain bs bm bn where r: "cv_search orc self = (bs, bm, bn)"
    by (cases "cv_search orc self")
  from ret r obtain m where bm: "bm = Some m"
    and ft: "fit orc m (X self) (lengths self) = Some model"
    by (auto simp: SelectorCV_select_cases split: option.splits)
  note inst = cv_search_winner_interval [where orc = orc and self = self]
  from inst r bm obtain n v where bn: "bn = Some n"
    and n: "n \<in> {min_n_components self..max_n_components self}"
    and cc: "candidate_CV orc self n = Some (v, m)" and bs: "bs = Fin v"
    and most: "\<forall>n'\<in>{min_n_components self..max_n_components self}.
            \<forall>v' m'. candidate_CV orc self n' = Some (v', m') \<longrightarrow>
              v' \<le> v \<and> (n' < n \<longrightarrow> v' < v)"
    by (cases bn) auto
  have nm: "n_components m = n" using candidate_CV_n_components [OF cc] .
  have nc: "n_components model = n" using fit_n_components [OF ft] nm by simp
  have "fit orc (GaussianHMM n) (X self) (lengths self) = Some model"
    using fit_fresh [OF assms ft] nm by simp
  with r bm bn bs n cc most nc
  show "\<exists>n v m. cv_search orc self = (Fin v, Some m, Some n) \<and>
        n \<in> {min_n_components self..max_n_components self} \<and>
        candidate_CV orc self n = Some (v, m) \<and>
        (\<forall>n'\<in>{min_n_components self..max_n_components self}.
            \<forall>v' m'. candidate_CV orc self n' = Some (v', m') \<longrightarrow>
              v' \<le> v \<and> (n' < n \<longrightarrow> v' < v)) \<and>
        fit orc (GaussianHMM n) (X self) (lengths self) = Some model \<and>
        n_components model = n"
    by blast
qed

lemma cv_body_cat_dog:
  "cv_body orc cat_dog 2 n =
     (case candidate_CV orc cat_dog n of None \<Rightarrow> None | Some (v, m) \<Rightarrow> Some (Fin v, Some m))"
  using cv_body_candidate [of orc cat_dog n] by (simp add: cat_dog_folds)

lemma cv_search_cat_dog:
  "cv_search orc cat_dog = select_loop fgt (cv_body orc cat_dog 2) [2, 3, 4] (NegInf, None, None)"
  by (simp add: cv_search_def cat_dog_folds n_range_cat_dog)

lemma rising_cv_search:
  "cv_search rising_oracle cat_dog
     = (Fin 0, Some \<lparr>n_components = 4, params = Some 4\<rparr>, Some 4)"
  by (simp add: cv_search_cat_dog cv_body_cat_dog rising_candidate_CV fgt_def)

lemma rising_fit_ignores_state: "fit_ignores_state rising_oracle"
  by (simp add: fit_ignores_state_def rising_oracle_def GaussianHMM_def)

lemma rising_SelectorCV_select:
  "SelectorCV_select rising_oracle cat_dog
     = Returned (Some \<lparr>n_components = 4, params = Some 4\<rparr>)"
  by (simp add: SelectorCV_select_cases rising_cv_search rising_fit)

theorem SelectorCV_select_refits_winner_witness:
  "fit_ignores_state rising_oracle \<and>
   SelectorCV_select rising_oracle cat_dog
     = Returned (Some \<lparr>n_components = 4, params = Some 4\<rparr>) \<and>
   fit rising_oracle (GaussianHMM 4) (X cat_dog) (lengths cat_dog)
     = Some \<lparr>n_components = 4, params = Some 4\<rparr>"
proof -
  let ?r = "\<lparr>n_components = 4, params = Some (4::int)\<rparr>"
  from SelectorCV_select_refits_winner [OF rising_fit_ignores_state,
      where self = cat_dog and model = ?r] rising_SelectorCV_select
  obtain n where "n_components ?r = n"
    and "fit rising_oracle (GaussianHMM n) (X cat_dog) (lengths cat_dog) = Some ?r"
    by blast
  then have "fit rising_oracle (GaussianHMM 4) (X cat_dog) (lengths cat_dog) = Some ?r"
    by auto
  with rising_fit_ignores_state rising_SelectorCV_select show ?thesis by simp
qed

lemma SelectorCV_select_Raised_iff:
  "SelectorCV_select orc self = Raised \<longleftrightarrow>
     (\<exists>best_score m best_n. cv_search orc self = (best_score, Some m, best_n) \<and>
        fit orc m (X self) (lengths self) = None)"
  by (auto simp: SelectorCV_select_cases split: prod.splits option.splits)

lemma SelectorCV_select_no_raise:
  assumes "fit_ignores_state orc"
  shows "SelectorCV_select orc self \<noteq> Raised"
proof
  assume "SelectorCV_select orc self = Raised"
  then obtain bs m bn where r: "cv_search orc self = (bs, Some m, bn)"
    and f: "fit orc m (X self) (lengths self) = None"
    by (auto simp: SelectorCV_select_Raised_iff)
  from cv_search_winner [where orc = orc and self = self] r
  obtain n v where cc: "candidate_CV orc self n = Some (v, m)"
    by (cases bn) auto
  then obtain m0 where bm: "base_model orc self n = Some m0"
    by (auto simp: candidate_CV_def split: option.splits)
  have nm: "n_components m = n" using candidate_CV_n_components [OF cc] .
  from bm obtain p where "hmm_fit orc (GaussianHMM n) (X self) (lengths self) = Some p"
    by (auto simp: base_model_def fit_def split: option.splits)
  moreover have "hmm_fit orc m (X self) (lengths self)
      = hmm_fit orc (GaussianHMM (n_components m)) (X self) (lengths self)"
    using assms unfolding fit_ignores_state_def by blast
  ultimately have "hmm_fit orc m (X self) (lengths self) = Some p"
    using nm by simp
  with f show False by (simp add: fit_def)
qed

lemma picky_dic_body: "dic_body picky_oracle cat_dog n = None"
  by (simp add: dic_body_candidate candidate_DIC_def picky_trained_candidate picky_anti_lls
        picky_score_own)

lemma picky_fit_ignores_state: "fit_ignores_state picky_oracle"
  by (simp add: fit_ignores_state_def picky_oracle_def GaussianHMM_def)

text \<open>
  Claim C6.  The oracle's fit is a function of the state count and the data.  In
  \<^verbatim>\<open>SelectorConstant\<close>, \<^verbatim>\<open>SelectorBIC\<close> and \<^verbatim>\<open>SelectorDIC\<close> every call of the oracle
  stands inside a \<^verbatim>\<open>try\<close>.  The last fit of \<^verbatim>\<open>SelectorCV.select\<close> stands outside, but
  it repeats, on the same data and with the same state count, the fit that
  \<^verbatim>\<open>base_model\<close> has carried out for the winning candidate, so it cannot fail: the call
  always returns.  When no candidate is usable every selector returns \<open>None\<close>.
\<close>

theorem select_never_raises:
  assumes "fit_ignores_state orc"
  shows "(\<exists>r. SelectorCV_select orc self = Returned r) \<and>
         ((\<forall>n\<in>{min_n_components self..max_n_components self}.
              cv_body orc self (min 3 (length (sequences self))) n = None) \<longrightarrow>
            SelectorCV_select orc self = Returned None) \<and>
         ((\<forall>n\<in>{min_n_components self..max_n_components self}. bic_body orc self n = None) \<longrightarrow>
            SelectorBIC_select orc self = None) \<and>
         ((\<forall>n\<in>{min_n_components self..max_n_components self}. dic_body orc self n = None) \<longrightarrow>
            SelectorDIC_select orc self = None) \<and>
         (fit orc (GaussianHMM (n_constant self)) (X self) (lengths self) = None \<longrightarrow>
            SelectorConstant_select orc self = None)"
proof (intro conjI impI)
  show "\<exists>r. SelectorCV_select orc self = Returned r"
    using SelectorCV_select_no_raise [OF assms, of self]
    by (cases "SelectorCV_select orc self") auto
next
  assume "\<forall>n\<in>{min_n_components self..max_n_components self}.
              cv_body orc self (min 3 (length (sequences self))) n = None"
  then have "cv_search orc self = (NegInf, None, None)"
    by (simp add: cv_search_def n_range_def select_loop_all_fail)
  then show "SelectorCV_select orc self = Returned None"
    by (simp add: SelectorCV_select_cases)
next
  assume "\<forall>n\<in>{min_n_components self..max_n_components self}. bic_body orc self n = None"
  then show "SelectorBIC_select orc self = None"
    by (simp add: SelectorBIC_select_def n_range_def select_loop_all_fail)
next
  assume "\<forall>n\<in>{min_n_components self..max_n_components self}. dic_body orc self n = None"
  then show "SelectorDIC_select orc self = None"
    by (simp add: SelectorDIC_select_def n_range_def select_loop_all_fail)
next
  assume "fit orc (GaussianHMM (n_constant self)) (X self) (lengths self) = None"
  then show "SelectorConstant_select orc self = None"
    by (simp add: SelectorConstant_select_def base_model_def)
qed

theorem select_never_raises_witness:
  "fit_ignores_state rising_oracle \<and> fit_ignores_state picky_oracle \<and>
   SelectorCV_select rising_oracle cat_dog
     = Returned (Some \<lparr>n_components = 4, params = Some 4\<rparr>) \<and>
   dic_body picky_oracle cat_dog 2 = None \<and> dic_body picky_oracle cat_dog 3 = None \<and>
   dic_body picky_oracle cat_dog 4 = None \<and>
   SelectorDIC_select picky_oracle cat_dog = None"
proof -
  from select_never_raises [OF rising_fit_ignores_state, where self = cat_dog]
  obtain r where "SelectorCV_select rising_oracle cat_dog = Returned r" by blast
  then have a: "SelectorCV_select rising_oracle cat_dog
     = Returned (Some \<lparr>n_components = 4, params = Some 4\<rparr>)"
    by (simp add: rising_SelectorCV_select)
  from select_never_raises [OF picky_fit_ignores_state, where self = cat_dog]
  have "(\<forall>n\<in>{min_n_components cat_dog..max_n_components cat_dog}.
           dic_body picky_oracle cat_dog n = None) \<longrightarrow>
        SelectorDIC_select picky_oracle cat_dog = None"
    by blast
  then have b: "SelectorDIC_select picky_oracle cat_dog = None"
    by (simp add: picky_dic_body)
  from a b show ?thesis
    by (simp add: rising_fit_ignores_state picky_fit_ignores_state picky_dic_body)
qed

section \<open>Properties of the recognizer\<close>

text \<open>
  A \<^verbatim>\<open>models\<close> dictionary is an association list with distinct keys, in iteration
  order.  The inner loop of \<^verbatim>\<open>recognize\<close> fills the score map and runs the same search
  as the selectors, over the words.
\<close>

lemma update_fresh: "k \<notin> fst ` set al \<Longrightarrow> AList.update k v al = al @ [(k, v)]"
  by (induction al) auto

lemma foldl_update_fresh:
  "distinct ws \<Longrightarrow> set ws \<inter> fst ` set al = {} \<Longrightarrow>
     foldl (\<lambda>p w. AList.update w (f w) p) al ws = al @ map (\<lambda>w. (w, f w)) ws"
proof (induction ws arbitrary: al)
  case Nil
  show ?case by simp
next
  case (Cons w ws)
  have fresh: "w \<notin> fst ` set al" using Cons.prems(2) by auto
  have "set ws \<inter> fst ` set (al @ [(w, f w)]) = {}"
    using Cons.prems by auto
  with Cons.IH [of "al @ [(w, f w)]"] Cons.prems(1) fresh
  show ?case by (simp add: update_fresh)
qed

lemma word_loop_split:
  "word_loop orc models x l ws (probs, bs, bg) =
     (case select_loop fgt (\<lambda>w. Some (word_ll orc models x l w, ())) ws (bs, (), bg) of
        (bs', u, bg') \<Rightarrow>
          (foldl (\<lambda>p w. AList.update w (word_ll orc models x l w) p) probs ws, bs', bg'))"
  by (induction ws arbitrary: probs bs bg) (auto simp: Let_def)

lemma word_ll_cases: "word_ll orc models x l w = NegInf \<or> (\<exists>v. word_ll orc models x l w = Fin v)"
  by (auto simp: word_ll_def split: option.splits)

lemma fgt_NegInf: "\<not> fgt NegInf b"
  by (cases b) (simp_all add: fgt_def)

lemma select_loop_skip_NegInf:
  assumes "\<And>w. f w = NegInf \<or> (\<exists>v. f w = Fin v)"
  shows "select_loop fgt (\<lambda>w. Some (f w, ())) ws st =
         select_loop fgt (\<lambda>w. case f w of Fin v \<Rightarrow> Some (Fin v, ()) | _ \<Rightarrow> None) ws st"
proof (induction ws arbitrary: st)
  case Nil
  show ?case by simp
next
  case (Cons w ws)
  obtain bs u bg where st: "st = (bs, u, bg)" by (cases st)
  from assms [of w] show ?case
  proof
    assume "f w = NegInf"
    then show ?thesis by (simp add: st fgt_NegInf Cons.IH)
  next
    assume "\<exists>v. f w = Fin v"
    then show ?thesis by (auto simp: st Cons.IH)
  qed
qed

lemma best_word:
  assumes "\<And>w. f w = NegInf \<or> (\<exists>v. f w = Fin v)"
  shows "(select_loop fgt (\<lambda>w. Some (f w, ())) ws (NegInf, (), None) = (NegInf, (), None) \<and>
            (\<forall>w\<in>set ws. f w = NegInf))
       \<or> (\<exists>pre w post v. ws = pre @ w # post \<and> f w = Fin v \<and>
             select_loop fgt (\<lambda>w. Some (f w, ())) ws (NegInf, (), None) = (Fin v, (), Some w) \<and>
             (\<forall>w'\<in>set pre. flt (f w') (Fin v)) \<and>
             (\<forall>w'\<in>set post. \<not> flt (Fin v) (f w')))"
proof -
  let ?body = "\<lambda>w. case f w of Fin v \<Rightarrow> Some (Fin v, ()) | _ \<Rightarrow> None"
  have fin: "\<forall>n\<in>set ws. \<forall>sc m. ?body n = Some (sc, m) \<longrightarrow> (\<exists>v. sc = Fin v)"
    by (auto split: pyfloat.splits)
  have bnd: "\<And>a. fgt (Fin a) NegInf = (case None of None \<Rightarrow> True | Some w \<Rightarrow> - a < - w)"
    by (simp add: fgt_def)
  from select_loop_first_best [of ws ?body fgt uminus NegInf None "()" None, OF fin fgt_Fin_Fin bnd]
  show ?thesis
  proof (elim disjE exE conjE)
    assume u: "select_loop fgt ?body ws (NegInf, (), None) = (NegInf, (), None)"
      and w: "\<forall>n\<in>set ws. \<forall>v m. ?body n = Some (Fin v, m) \<longrightarrow>
                (case None of None \<Rightarrow> False | Some w \<Rightarrow> - w \<le> - v)"
    have "\<forall>n\<in>set ws. f n = NegInf"
    proof
      fix n assume n: "n \<in> set ws"
      from assms [of n] show "f n = NegInf"
      proof
        assume "\<exists>v. f n = Fin v"
        then obtain v where "?body n = Some (Fin v, ())" by auto
        with w n show ?thesis by simp
      qed simp
    qed
    with u show ?thesis by (simp add: select_loop_skip_NegInf [OF assms])
  next
    fix pre n post v m
    assume a: "ws = pre @ n # post" "?body n = Some (Fin v, m)"
      "select_loop fgt ?body ws (NegInf, (), None) = (Fin v, m, Some n)"
      "\<forall>n'\<in>set pre. \<forall>v' m'. ?body n' = Some (Fin v', m') \<longrightarrow> - v < - v'"
      "\<forall>n'\<in>set post. \<forall>v' m'. ?body n' = Some (Fin v', m') \<longrightarrow> - v \<le> - v'"
    have fn: "f n = Fin v" using a(2) by (auto split: pyfloat.splits)
    have p1: "\<forall>w'\<in>set pre. flt (f w') (Fin v)"
    proof
      fix w' assume w': "w' \<in> set pre"
      from assms [of w'] show "flt (f w') (Fin v)"
      proof
        assume "\<exists>v'. f w' = Fin v'"
        then obtain v' where v': "f w' = Fin v'" by auto
        then have "?body w' = Some (Fin v', ())" by simp
        with a(4) w' have "- v < - v'" by blast
        with v' show ?thesis by simp
      qed simp
    qed
    have p2: "\<forall>w'\<in>set post. \<not> flt (Fin v) (f w')"
    proof
      fix w' assume w': "w' \<in> set post"
      from assms [of w'] show "\<not> flt (Fin v) (f w')"
      proof
        assume "\<exists>v'. f w' = Fin v'"
        then obtain v' where v': "f w' = Fin v'" by auto
        then have "?body w' = Some (Fin v', ())" by simp
        with a(5) w' have "- v \<le> - v'" by blast
        with v' show ?thesis by simp
      qed simp
    qed
    from a(1,3) fn p1 p2 show ?thesis
      by (auto simp: select_loop_skip_NegInf [OF assms])
  qed
qed

lemma recognize_loop_map:
  "recognize_loop orc models items (ps, gs) =
     (ps @ map (\<lambda>item. fst (recognize_item orc models item)) items,
      gs @ map (\<lambda>item. snd (recognize_item orc models item)) items)"
  by (induction items arbitrary: ps gs) (auto split: prod.splits)

lemma recognize_map:
  "recognize orc models test_set =
     (map (\<lambda>item. fst (recognize_item orc models item)) test_set,
      map (\<lambda>item. snd (recognize_item orc models item)) test_set)"
  by (simp add: recognize_def recognize_loop_map)

lemma word_ll_item:
  assumes "distinct (map fst models)" and "(w, m) \<in> set models"
  shows "word_ll orc models x l w = item_ll orc m (x, l)"
proof -
  have "map_of models w = Some m" using assms by simp
  then show ?thesis by (simp add: word_ll_def item_ll_def split: option.splits)
qed

lemma recognize_item_split:
  "recognize_item orc models (x, l) =
     (foldl (\<lambda>p w. AList.update w (word_ll orc models x l w) p) [] (map fst models),
      snd (snd (select_loop fgt (\<lambda>w. Some (word_ll orc models x l w, ())) (map fst models)
                 (NegInf, (), None))))"
  by (simp add: recognize_item_def word_loop_split split: prod.splits)

lemma recognize_item_probs:
  assumes "distinct (map fst models)"
  shows "fst (recognize_item orc models item) = map (\<lambda>(w, m). (w, item_ll orc m item)) models"
proof -
  obtain x l where item: "item = (x, l)" by (cases item)
  have "fst (recognize_item orc models item)
          = map (\<lambda>w. (w, word_ll orc models x l w)) (map fst models)"
    using foldl_update_fresh [of "map fst models" "[]" "word_ll orc models x l"] assms
    by (simp add: item recognize_item_split)
  also have "\<dots> = map (\<lambda>(w, m). (w, item_ll orc m item)) models"
    using word_ll_item [OF assms] by (auto simp: item)
  finally show ?thesis .
qed

lemma recognize_item_guess:
  assumes "distinct (map fst models)"
  shows "(snd (recognize_item orc models item) = None \<and>
            (\<forall>(w, v)\<in>set (fst (recognize_item orc models item)). v = NegInf))
       \<or> (\<exists>pre w v post. snd (recognize_item orc models item) = Some w \<and>
             fst (recognize_item orc models item) = pre @ (w, v) # post \<and> v \<noteq> NegInf \<and>
             (\<forall>(w', v')\<in>set pre. flt v' v) \<and> (\<forall>(w', v')\<in>set post. \<not> flt v v'))"
proof -
  obtain x l where item: "item = (x, l)" by (cases item)
  let ?f = "word_ll orc models x l"
  let ?g = "\<lambda>w. (w, ?f w)"
  have probs: "fst (recognize_item orc models item) = map ?g (map fst models)"
    using foldl_update_fresh [of "map fst models" "[]" ?f] assms
    by (simp add: item recognize_item_split)
  have guess: "snd (recognize_item orc models item)
      = snd (snd (select_loop fgt (\<lambda>w. Some (?f w, ())) (map fst models) (NegInf, (), None)))"
    by (simp add: item recognize_item_split)
  from best_word [of ?f "map fst models", OF word_ll_cases]
  show ?thesis
  proof (elim disjE exE conjE)
    assume "select_loop fgt (\<lambda>w. Some (?f w, ())) (map fst models) (NegInf, (), None)
              = (NegInf, (), None)"
      and "\<forall>w\<in>set (map fst models). ?f w = NegInf"
    then show ?thesis by (auto simp: probs guess)
  next
    fix pre w post v
    assume a: "map fst models = pre @ w # post" "?f w = Fin v"
      "select_loop fgt (\<lambda>w. Some (?f w, ())) (map fst models) (NegInf, (), None)
          = (Fin v, (), Some w)"
      "\<forall>w'\<in>set pre. flt (?f w') (Fin v)" "\<forall>w'\<in>set post. \<not> flt (Fin v) (?f w')"
    have "fst (recognize_item orc models item) = map ?g pre @ (w, Fin v) # map ?g post"
      using a(1,2) by (simp add: probs)
    moreover have "snd (recognize_item orc models item) = Some w"
      using a(3) by (simp add: guess)
    moreover have "\<forall>(w', v')\<in>set (map ?g pre). flt v' (Fin v)" using a(4) by auto
    moreover have "\<forall>(w', v')\<in>set (map ?g post). \<not> flt (Fin v) v'" using a(5) by auto
    ultimately show ?thesis by blast
  qed
qed

lemma picky_recognize:
  "recognize picky_oracle word_models test_items =
     ([[(''EEL'', NegInf), (''CAT'', Fin (- 6)), (''DOG'', Fin (- 6))],
       [(''EEL'', NegInf), (''CAT'', NegInf), (''DOG'', NegInf)]],
      [Some ''CAT'', None])"
  by (simp add: recognize_def recognize_item_def word_models_def test_items_def word_ll_def
        score_def picky_oracle_def fgt_def Let_def)

lemma word_models_distinct: "distinct (map fst word_models)"
  by (simp add: word_models_def)

text \<open>
  Claim C2 says that the best guess of every item is the key of the greatest score in
  the item's score map, the first one among equals.  For an item that no model can
  score every entry of the map is minus infinity, its first key is EEL, and the guess is
  \<open>None\<close>.
\<close>

theorem recognize_all_fail_counterexample:
  "recognize picky_oracle word_models [([4, 5], [1, 1])] =
     ([[(''EEL'', NegInf), (''CAT'', NegInf), (''DOG'', NegInf)]], [None])"
  by (simp add: recognize_def recognize_item_def word_models_def word_ll_def
        score_def picky_oracle_def fgt_def Let_def)

text \<open>
  Claim C2, amended.  \<^verbatim>\<open>recognize\<close> returns two lists as long as the test set; their
  \<open>i\<close>-th entries are the score map and the guess of the \<open>i\<close>-th item.  When some score of
  the item is above minus infinity, the guess is the key of the greatest score, the
  first such key in the iteration order of \<open>models\<close>: every earlier key has a strictly
  smaller score and no later key a greater one.  When no score is above minus infinity
  the guess is \<open>None\<close>.
\<close>

theorem recognize_first_maximum:
  assumes "distinct (map fst models)"
  shows "length (fst (recognize orc models test_set)) = length test_set \<and>
         length (snd (recognize orc models test_set)) = length test_set \<and>
         (\<forall>i<length test_set.
            fst (recognize orc models test_set) ! i
              = map (\<lambda>(w, m). (w, item_ll orc m (test_set ! i))) models \<and>
            (case snd (recognize orc models test_set) ! i of
               None \<Rightarrow> \<forall>(w, v)\<in>set (fst (recognize orc models test_set) ! i). v = NegInf
             | Some w \<Rightarrow>
                 \<exists>pre v post. fst (recognize orc models test_set) ! i = pre @ (w, v) # post \<and>
                   v \<noteq> NegInf \<and> (\<forall>(w', v')\<in>set pre. flt v' v) \<and>
                   (\<forall>(w', v')\<in>set post. \<not> flt v v')))"
proof (intro conjI allI impI)
  show "length (fst (recognize orc models test_set)) = length test_set"
    by (simp add: recognize_map)
  show "length (snd (recognize orc models test_set)) = length test_set"
    by (simp add: recognize_map)
next
  fix i assume i: "i < length test_set"
  show "fst (recognize orc models test_set) ! i
              = map (\<lambda>(w, m). (w, item_ll orc m (test_set ! i))) models"
    using i by (simp add: recognize_map recognize_item_probs [OF assms])
next
  fix i assume i: "i < length test_set"
  let ?it = "test_set ! i"
  have p: "fst (recognize orc models test_set) ! i = fst (recognize_item orc models ?it)"
    and g: "snd (recognize orc models test_set) ! i = snd (recognize_item orc models ?it)"
    using i by (simp_all add: recognize_map)
  from recognize_item_guess [OF assms, of orc ?it]
  show "case snd (recognize orc models test_set) ! i of
               None \<Rightarrow> \<forall>(w, v)\<in>set (fst (recognize orc models test_set) ! i). v = NegInf
             | Some w \<Rightarrow>
                 \<exists>pre v post. fst (recognize orc models test_set) ! i = pre @ (w, v) # post \<and>
                   v \<noteq> NegInf \<and> (\<forall>(w', v')\<in>set pre. flt v' v) \<and>
                   (\<forall>(w', v')\<in>set post. \<not> flt v v')"
    unfolding p g by (elim disjE exE conjE) auto
qed

theorem recognize_first_maximum_witness:
  "distinct (map fst word_models) \<and>
   length (fst (recognize picky_oracle word_models test_items)) = length test_items \<and>
   length (snd (recognize picky_oracle word_models test_items)) = length test_items \<and>
   fst (recognize picky_oracle word_models test_items) ! 0
     = [(''EEL'', NegInf), (''CAT'', Fin (- 6)), (''DOG'', Fin (- 6))] \<and>
   snd (recognize picky_oracle word_models test_items) = [Some ''CAT'', None]"
proof -
  note inst = recognize_first_maximum [OF word_models_distinct,
      where orc = picky_oracle and test_set = test_items]
  then have "length (fst (recognize picky_oracle word_models test_items)) = length test_items"
    and "length (snd (recognize picky_oracle word_models test_items)) = length test_items"
    by simp_all
  then show ?thesis
    using word_models_distinct by (simp add: picky_recognize)
qed

text \<open>
  Claim C8.  The score map of every test item has exactly one entry for every key of
  \<open>models\<close>, in the same order; the entry is the model's score on the item, and minus
  infinity when scoring raises (or when there is no model under the key): the category
  is never left out and nothing is raised.
\<close>

theorem recognize_score_map_total:
  assumes "distinct (map fst models)" and "i < length test_set"
  shows "map fst (fst (recognize orc models test_set) ! i) = map fst models \<and>
         (\<forall>(w, m)\<in>set models.
            map_of (fst (recognize orc models test_set) ! i) w
              = Some (item_ll orc m (test_set ! i))) \<and>
         (\<forall>w hmm. (w, Some hmm) \<in> set models \<and>
              score orc hmm (fst (test_set ! i)) (snd (test_set ! i)) = None \<longrightarrow>
            map_of (fst (recognize orc models test_set) ! i) w = Some NegInf)"
proof -
  let ?p = "fst (recognize orc models test_set) ! i"
  let ?it = "test_set ! i"
  have p: "?p = map (\<lambda>(w, m). (w, item_ll orc m ?it)) models"
    using assms(2) by (simp add: recognize_map recognize_item_probs [OF assms(1)])
  have keys: "map fst ?p = map fst models"
    by (simp add: p case_prod_beta comp_def)
  have look: "\<forall>(w, m)\<in>set models. map_of ?p w = Some (item_ll orc m ?it)"
  proof (intro ballI, clarify)
    fix w m assume wm: "(w, m) \<in> set models"
    have "distinct (map fst ?p)" using keys assms(1) by simp
    moreover have "(w, item_ll orc m ?it) \<in> set ?p" using wm by (force simp: p)
    ultimately show "map_of ?p w = Some (item_ll orc m ?it)" by simp
  qed
  have "\<forall>w hmm. (w, Some hmm) \<in> set models \<and>
              score orc hmm (fst ?it) (snd ?it) = None \<longrightarrow> map_of ?p w = Some NegInf"
  proof (intro allI impI)
    fix w hmm
    assume a: "(w, Some hmm) \<in> set models \<and> score orc hmm (fst ?it) (snd ?it) = None"
    with look have "map_of ?p w = Some (item_ll orc (Some hmm) ?it)" by blast
    with a show "map_of ?p w = Some NegInf" by (simp add: item_ll_def)
  qed
  with keys look show ?thesis by simp
qed

theorem recognize_score_map_total_witness:
  "distinct (map fst word_models) \<and> 1 < length test_items \<and>
   score picky_oracle \<lparr>n_components = 2, params = Some 2\<rparr>
      (fst (test_items ! 1)) (snd (test_items ! 1)) = None \<and>
   map fst (fst (recognize picky_oracle word_models test_items) ! 1) = map fst word_models \<and>
   map_of (fst (recognize picky_oracle word_models test_items) ! 1) ''DOG'' = Some NegInf"
proof -
  have len: "1 < length test_items" by (simp add: test_items_def)
  have sc: "score picky_oracle \<lparr>n_components = 2, params = Some 2\<rparr>
      (fst (test_items ! 1)) (snd (test_items ! 1)) = None"
    by (simp add: score_def picky_oracle_def test_items_def)
  have mem: "(''DOG'', Some \<lparr>n_components = 2, params = Some (2::int)\<rparr>) \<in> set word_models"
    by (simp add: word_models_def)
  note inst = recognize_score_map_total [OF word_models_distinct len, where orc = picky_oracle]
  from inst have "map fst (fst (recognize picky_oracle word_models test_items) ! 1)
      = map fst word_models" by simp
  moreover from inst sc mem
  have "map_of (fst (recognize picky_oracle word_models test_items) ! 1) ''DOG'' = Some NegInf"
    by blast
  ultimately show ?thesis using word_models_distinct len sc by simp
qed

text \<open>
  Claim C10.  The guess for a test item is \<open>None\<close> exactly when every score in the item's
  score map is minus infinity (as when \<open>models\<close> is empty or every model fails on the
  item); otherwise it is a key of \<open>models\<close>.
\<close>

theorem recognize_guess_None_iff:
  assumes "distinct (map fst models)" and "i < length test_set"
  shows "(snd (recognize orc models test_set) ! i = None
            \<longleftrightarrow> (\<forall>(w, v)\<in>set (fst (recognize orc models test_set) ! i). v = NegInf)) \<and>
         (\<forall>w. snd (recognize orc models test_set) ! i = Some w \<longrightarrow> w \<in> fst ` set models)"
proof -
  let ?it = "test_set ! i"
  have p: "fst (recognize orc models test_set) ! i = fst (recognize_item orc models ?it)"
    and g: "snd (recognize orc models test_set) ! i = snd (recognize_item orc models ?it)"
    using assms(2) by (simp_all add: recognize_map)
  have keys: "fst ` set (fst (recognize_item orc models ?it)) = fst ` set models"
    by (force simp: recognize_item_probs [OF assms(1)])
  from recognize_item_guess [OF assms(1), of orc ?it]
  show ?thesis
  proof (elim disjE exE conjE)
    assume "snd (recognize_item orc models ?it) = None"
      and "\<forall>(w, v)\<in>set (fst (recognize_item orc models ?it)). v = NegInf"
    then show ?thesis by (simp add: p g)
  next
    fix pre w v post
    assume a: "snd (recognize_item orc models ?it) = Some w"
      "fst (recognize_item orc models ?it) = pre @ (w, v) # post" "v \<noteq> NegInf"
    have "w \<in> fst ` set (fst (recognize_item orc models ?it))"
      using a(2) by force
    then have "w \<in> fst ` set models" using keys by simp
    moreover have "\<not> (\<forall>(w, v)\<in>set (fst (recognize_item orc models ?it)). v = NegInf)"
      using a(2,3) by auto
    ultimately show ?thesis using a(1) by (simp add: p g)
  qed
qed

theorem recognize_guess_None_iff_witness:
  "distinct (map fst word_models) \<and> 1 < length test_items \<and>
   snd (recognize picky_oracle word_models test_items) ! 1 = None \<and>
   fst (recognize picky_oracle word_models test_items) ! 1
     = [(''EEL'', NegInf), (''CAT'', NegInf), (''DOG'', NegInf)] \<and>
   snd (recognize picky_oracle word_models test_items) ! 0 = Some ''CAT''"
proof -
  have len: "1 < length test_items" by (simp add: test_items_def)
  have p: "fst (recognize picky_oracle word_models test_items) ! 1
     = [(''EEL'', NegInf), (''CAT'', NegInf), (''DOG'', NegInf)]"
    by (simp add: picky_recognize)
  from recognize_guess_None_iff [OF word_models_distinct len, where orc = picky_oracle]
  have "snd (recognize picky_oracle word_models test_items) ! 1 = None"
    unfolding p by simp
  then show ?thesis
    using word_models_distinct len by (simp add: picky_recognize)
qed

end
